theory Spec2Isabelle
  imports Complex_Main "HOL-Library.Word"
begin

section \<open>Conventions of the embedding\<close>

text \<open>
  The library is TypeScript. A JavaScript \<^verbatim>\<open>number\<close> and an element of a
  \<^verbatim>\<open>Float32Array\<close> are both modelled as a \<^typ>\<open>real\<close>. Arithmetic on numbers is
  exact: the rounding of an operation on doubles is not part of the model. The rounding
  of a computed number on its store into a \<^verbatim>\<open>Float32Array\<close> is: it is the function
  \<open>fround\<close> below. The values a
  \<^typ>\<open>real\<close> cannot hold are written out where the code produces them:
  \<^verbatim>\<open>-Infinity\<close> as a loudness is a constructor of its own, an array read out of range
  (\<^verbatim>\<open>undefined\<close>, which arithmetic turns into \<^verbatim>\<open>NaN\<close>) is a branch of the function that
  performs it, and every \<^verbatim>\<open>throw\<close>, including the ones of the runtime
  (\<^verbatim>\<open>TypeError\<close>, \<^verbatim>\<open>RangeError\<close>), is the \<open>Inl\<close> side of a sum.
  A \<^verbatim>\<open>Float32Array\<close> is a \<^typ>\<open>real list\<close>, a \<^verbatim>\<open>Buffer\<close> a list of bytes.
\<close>

text \<open>
  The code throws \<^verbatim>\<open>Error\<close> objects that differ in their message only. The
  constructors are the error kinds of the specification, and the two errors of the
  runtime. No function below produces \<open>SampleRateMismatch\<close> or \<open>InvalidSpeedRate\<close>:
  the code has no \<^verbatim>\<open>throw\<close> for them.
\<close>

datatype error =
    UnsupportedSampleRate
  | ChannelCountMismatch
  | SampleRateMismatch
  | ChannelIndexOutOfRange
  | InvalidSpeedRate
  | InvalidWav
  | TypeError
  | RangeError

type_synonym Float32Array = "real list"

section \<open>Runtime operations of JavaScript used by the code\<close>

text \<open>\<^verbatim>\<open>Math.round\<close> rounds a half towards plus infinity.\<close>

definition Math_round :: "real \<Rightarrow> int" where
  "Math_round x = \<lfloor>x + 1 / 2\<rfloor>"

text \<open>
  The result of a division that may be by zero, where the code uses it as a length or
  a loop bound: a real, \<^verbatim>\<open>Infinity\<close> of either sign, or \<^verbatim>\<open>NaN\<close>.
\<close>

datatype jsnum = Num real | Infinite | NaN

definition js_div :: "real \<Rightarrow> real \<Rightarrow> jsnum" where
  "js_div x y = (if y = 0 then (if x = 0 then NaN else Infinite) else Num (x / y))"

text \<open>The conversion of a finite number to an integer truncates towards zero.\<close>

definition js_trunc :: "real \<Rightarrow> int" where
  "js_trunc x = (if x < 0 then \<lceil>x\<rceil> else \<lfloor>x\<rfloor>)"

text \<open>
  The store of a number into a \<^verbatim>\<open>Float32Array\<close> (\<^verbatim>\<open>Math.fround\<close>): the nearest
  32-bit float, a tie going to the even significand; 24 bits of significand, and the
  exponent of the subnormal floats is -126. A value beyond the largest float, which the
  code stores as an infinity, is outside the model.
\<close>

definition round_half_even :: "real \<Rightarrow> int" where
  "round_half_even r =
     (let f = \<lfloor>r\<rfloor>; d = r - real_of_int f
      in if d < 1 / 2 then f
         else if d > 1 / 2 then f + 1
         else if even f then f else f + 1)"

definition fround :: "real \<Rightarrow> real" where
  "fround x =
     (if x = 0 then 0
      else
        let e = max \<lfloor>log 2 \<bar>x\<bar>\<rfloor> (- 126);
            ulp = 2 powr real_of_int (e - 23)
        in real_of_int (round_half_even (x / ulp)) * ulp)"

text \<open>
  \<^verbatim>\<open>new Float32Array(len)\<close>: the length is truncated towards zero, \<^verbatim>\<open>NaN\<close> counts
  as 0, a negative or infinite length throws a \<^verbatim>\<open>RangeError\<close>. The limit of the
  runtime on the size of an allocation is not modelled.
\<close>

fun new_Float32Array :: "jsnum \<Rightarrow> error + Float32Array" where
  "new_Float32Array NaN = Inr []"
| "new_Float32Array Infinite = Inl RangeError"
| "new_Float32Array (Num len) =
     (if js_trunc len < 0 then Inl RangeError else Inr (replicate (nat (js_trunc len)) 0))"

text \<open>
  \<^verbatim>\<open>TypedArray.prototype.slice(start, end)\<close> on integers: a negative index counts
  from the end, both are clamped to the array, and an empty range gives an empty array.
\<close>

definition relative_index :: "int \<Rightarrow> nat \<Rightarrow> nat" where
  "relative_index k len = (if k < 0 then nat (max (int len + k) 0) else nat (min k (int len)))"

definition slice_array :: "'a list \<Rightarrow> int \<Rightarrow> int \<Rightarrow> 'a list" where
  "slice_array xs start stop =
     (let k = relative_index start (length xs); final = relative_index stop (length xs)
      in take (final - k) (drop k xs))"

text \<open>\<^verbatim>\<open>Array.prototype.map\<close> with a callback that may throw: the first throw ends it.\<close>

fun map_throwing :: "('a \<Rightarrow> error + 'b) \<Rightarrow> 'a list \<Rightarrow> error + 'b list" where
  "map_throwing g [] = Inr []"
| "map_throwing g (x # xs) =
     (case g x of
        Inl e \<Rightarrow> Inl e
      | Inr y \<Rightarrow> (case map_throwing g xs of Inl e \<Rightarrow> Inl e | Inr ys \<Rightarrow> Inr (y # ys)))"

section \<open>dsp/biquad-filter.ts\<close>

record BiquadCoefficients =
  b0 :: real
  b1 :: real
  b2 :: real
  a0 :: real
  a1 :: real
  a2 :: real

text \<open>The private fields of the class: the five normalised coefficients and the state.\<close>

record BiquadFilter =
  fb0 :: real
  fb1 :: real
  fb2 :: real
  fa1 :: real
  fa2 :: real
  x1 :: real
  x2 :: real
  y1 :: real
  y2 :: real

definition newBiquadFilter :: "BiquadCoefficients \<Rightarrow> BiquadFilter" where
  "newBiquadFilter coeffs =
     \<lparr> fb0 = b0 coeffs / a0 coeffs, fb1 = b1 coeffs / a0 coeffs, fb2 = b2 coeffs / a0 coeffs,
       fa1 = a1 coeffs / a0 coeffs, fa2 = a2 coeffs / a0 coeffs,
       x1 = 0, x2 = 0, y1 = 0, y2 = 0 \<rparr>"

text \<open>\<^verbatim>\<open>process(x)\<close>: the returned sample and the filter after the call.\<close>

definition process :: "BiquadFilter \<Rightarrow> real \<Rightarrow> real \<times> BiquadFilter" where
  "process f x =
     (let y = fb0 f * x + fb1 f * x1 f + fb2 f * x2 f - fa1 f * y1 f - fa2 f * y2 f
      in (y, f\<lparr> x2 := x1 f, x1 := x, y2 := y1 f, y1 := y \<rparr>))"

text \<open>
  \<^verbatim>\<open>processBuffer(input)\<close>: the loop over the index \<open>i\<close>, writing \<open>output[i]\<close> in the
  \<^verbatim>\<open>Float32Array\<close> allocated (zero-filled) before the loop. The store rounds the
  number that \<open>process\<close> returned; the state of the filter keeps the number itself.
\<close>

function processBuffer_loop ::
  "BiquadFilter \<Rightarrow> Float32Array \<Rightarrow> nat \<Rightarrow> Float32Array \<Rightarrow> Float32Array \<times> BiquadFilter" where
  "processBuffer_loop f inp i out =
     (if i < length inp
      then (case process f (inp ! i) of
              (y, f') \<Rightarrow> processBuffer_loop f' inp (Suc i) (out[i := fround y]))
      else (out, f))"
  by pat_completeness auto
termination
  by (relation "measure (\<lambda>(f, inp, i, out). length inp - i)") auto

declare processBuffer_loop.simps [simp del]

definition processBuffer :: "BiquadFilter \<Rightarrow> Float32Array \<Rightarrow> Float32Array \<times> BiquadFilter" where
  "processBuffer f inp = processBuffer_loop f inp 0 (replicate (length inp) 0)"

definition reset :: "BiquadFilter \<Rightarrow> BiquadFilter" where
  "reset f = f\<lparr> x1 := 0, x2 := 0, y1 := 0, y2 := 0 \<rparr>"

text \<open>
  The specification's reading of the buffered operation, for the comparison: one call
  of \<open>process\<close> per sample, in order, each on the state the previous call left.
\<close>

fun sequential_process :: "BiquadFilter \<Rightarrow> real list \<Rightarrow> real list \<times> BiquadFilter" where
  "sequential_process f [] = ([], f)"
| "sequential_process f (x # xs) =
     (case process f x of (y, f') \<Rightarrow>
        (case sequential_process f' xs of (ys, f'') \<Rightarrow> (y # ys, f'')))"

section \<open>dsp/utils.ts\<close>

text \<open>A level in decibels: a \<^verbatim>\<open>number\<close> that may be \<^verbatim>\<open>-Infinity\<close>.\<close>

datatype db = MinusInfinity | Db real

fun dbToLinear :: "db \<Rightarrow> real" where
  "dbToLinear MinusInfinity = 0"
| "dbToLinear (Db d) = 10 powr (d / 20)"

definition linearToDb :: "real \<Rightarrow> db" where
  "linearToDb lin = (if lin \<le> 0 then MinusInfinity else Db (20 * log 10 lin))"

section \<open>dsp/k-weighting.ts\<close>

definition PREFILTER_48000 :: BiquadCoefficients where
  "PREFILTER_48000 = \<lparr> b0 = 1.53512485958697, b1 = - 2.69169618940638, b2 = 1.19839281085285,
                        a0 = 1.0, a1 = - 1.69065929318241, a2 = 0.73248077421585 \<rparr>"

definition RLB_48000 :: BiquadCoefficients where
  "RLB_48000 = \<lparr> b0 = 1.0, b1 = - 2.0, b2 = 1.0,
                  a0 = 1.0, a1 = - 1.99004745483398, a2 = 0.99007225036621 \<rparr>"

definition PREFILTER_44100 :: BiquadCoefficients where
  "PREFILTER_44100 = \<lparr> b0 = 1.5308412300498355, b1 = - 2.6509799951536985, b2 = 1.1690790799210682,
                        a0 = 1.0, a1 = - 1.6636551132560204, a2 = 0.7125954280732254 \<rparr>"

definition RLB_44100 :: BiquadCoefficients where
  "RLB_44100 = \<lparr> b0 = 1.0, b1 = - 2.0, b2 = 1.0,
                  a0 = 1.0, a1 = - 1.9891696736297957, a2 = 0.9891990357870394 \<rparr>"

record KWeightingFilters =
  preFilter :: BiquadFilter
  rlbFilter :: BiquadFilter

definition createKWeightingFilters :: "real \<Rightarrow> error + KWeightingFilters" where
  "createKWeightingFilters rate =
     (if rate = 48000
      then Inr \<lparr> preFilter = newBiquadFilter PREFILTER_48000, rlbFilter = newBiquadFilter RLB_48000 \<rparr>
      else if rate = 44100
      then Inr \<lparr> preFilter = newBiquadFilter PREFILTER_44100, rlbFilter = newBiquadFilter RLB_44100 \<rparr>
      else Inl UnsupportedSampleRate)"

definition applyKWeighting :: "Float32Array \<Rightarrow> real \<Rightarrow> error + Float32Array" where
  "applyKWeighting samples rate =
     (case createKWeightingFilters rate of
        Inl e \<Rightarrow> Inl e
      | Inr filters \<Rightarrow>
          (let afterPre = fst (processBuffer (preFilter filters) samples);
               afterRlb = fst (processBuffer (rlbFilter filters) afterPre)
           in Inr afterRlb))"

definition getChannelWeight :: "nat \<Rightarrow> nat \<Rightarrow> real" where
  "getChannelWeight channelIndex totalChannels =
     (if totalChannels \<le> 2 then 1.0
      else if totalChannels = 6
      then (if channelIndex = 3 then 0.0
            else if channelIndex = 4 \<or> channelIndex = 5 then 1.41253754462275
            else 1.0)
      else 1.0)"

section \<open>dsp/lufs.ts\<close>

definition ABSOLUTE_GATE_LUFS :: real where "ABSOLUTE_GATE_LUFS = - 70"
definition RELATIVE_GATE_LU :: real where "RELATIVE_GATE_LU = - 10"
definition BLOCK_DURATION_SEC :: real where "BLOCK_DURATION_SEC = 0.4"
definition OVERLAP_RATIO :: real where "OVERLAP_RATIO = 0.75"

definition meanSquareToLufs :: "real \<Rightarrow> db" where
  "meanSquareToLufs meanSquare =
     (if meanSquare \<le> 0 then MinusInfinity else Db (- 0.691 + 10 * log 10 meanSquare))"

text \<open>\<^verbatim>\<open>Math.pow(10, -Infinity)\<close> is 0.\<close>

fun lufsToMeanSquare :: "db \<Rightarrow> real" where
  "lufsToMeanSquare MinusInfinity = 0"
| "lufsToMeanSquare (Db lufs) = 10 powr ((lufs + 0.691) / 10)"

text \<open>
  The mean square of one channel over the block that starts at \<open>start\<close>. A block
  value is a \<^typ>\<open>real option\<close>, \<open>None\<close> standing for \<^verbatim>\<open>NaN\<close>: a read beyond the
  channel (a channel shorter than the first one) is \<^verbatim>\<open>undefined\<close> and makes the sum
  \<^verbatim>\<open>NaN\<close>, and so does \<open>0 / 0\<close> for a block size of 0. For a negative block size
  the loop over the samples is empty and the quotient is 0.
\<close>

definition channelMeanSquare :: "Float32Array \<Rightarrow> int \<Rightarrow> int \<Rightarrow> real option" where
  "channelMeanSquare channel start blockSize =
     (if blockSize = 0 then None
      else if blockSize < 0 then Some 0
      else if 0 \<le> start \<and> start + blockSize \<le> int (length channel)
      then Some (foldl (\<lambda>channelSum i. channelSum + channel ! i * channel ! i) 0
                   [nat start..<nat (start + blockSize)] / real_of_int blockSize)
      else None)"

definition blockWeightedSum :: "Float32Array list \<Rightarrow> int \<Rightarrow> int \<Rightarrow> real option" where
  "blockWeightedSum chs start blockSize =
     foldl (\<lambda>weightedSum ch.
              let weight = getChannelWeight ch (length chs)
              in if weight = 0 then weightedSum
                 else (case (weightedSum, channelMeanSquare (chs ! ch) start blockSize) of
                         (Some s, Some m) \<Rightarrow> Some (s + weight * m)
                       | _ \<Rightarrow> None))
           (Some 0) [0..<length chs]"

text \<open>
  The loop over the blocks. Its step is \<open>hopSize\<close>, which nothing in the function
  keeps positive, so the loop is a partial function: \<open>None\<close> is "does not return".
\<close>

partial_function (option) blocks_loop ::
  "Float32Array list \<Rightarrow> int \<Rightarrow> int \<Rightarrow> int \<Rightarrow> int \<Rightarrow> real option list \<Rightarrow> real option list option" where
  "blocks_loop chs blockSize hopSize numSamples start blocks =
     (if start + blockSize \<le> numSamples
      then blocks_loop chs blockSize hopSize numSamples (start + hopSize)
             (blocks @ [blockWeightedSum chs start blockSize])
      else Some blocks)"

definition calculateBlockMeanSquares ::
  "Float32Array list \<Rightarrow> real \<Rightarrow> (error + real option list) option" where
  "calculateBlockMeanSquares chs rate =
     (let blockSize = \<lfloor>BLOCK_DURATION_SEC * rate\<rfloor>;
          hopSize = \<lfloor>real_of_int blockSize * (1 - OVERLAP_RATIO)\<rfloor>
      in case chs of
           [] \<Rightarrow> Some (Inl TypeError)
         | ch0 # _ \<Rightarrow>
             (let numSamples = int (length ch0)
              in if numSamples < blockSize then Some (Inr [])
                 else map_option Inr (blocks_loop chs blockSize hopSize numSamples 0 [])))"

text \<open>\<^verbatim>\<open>filter((ms) => ms > threshold)\<close>: a \<^verbatim>\<open>NaN\<close> block compares false and is dropped.\<close>

definition blocks_above :: "real \<Rightarrow> real option list \<Rightarrow> real list" where
  "blocks_above thr blocks =
     List.map_filter (\<lambda>b. case b of None \<Rightarrow> None | Some ms \<Rightarrow> if ms > thr then Some ms else None) blocks"

fun add_db :: "db \<Rightarrow> real \<Rightarrow> db" where
  "add_db MinusInfinity x = MinusInfinity"
| "add_db (Db d) x = Db (d + x)"

definition applyGating :: "real option list \<Rightarrow> real" where
  "applyGating blockMeanSquares =
     (if length blockMeanSquares = 0 then 0
      else
        let absoluteThreshold = lufsToMeanSquare (Db ABSOLUTE_GATE_LUFS);
            afterAbsolute = blocks_above absoluteThreshold blockMeanSquares
        in if length afterAbsolute = 0 then 0
           else
             let absoluteSum = foldl (+) 0 afterAbsolute;
                 absoluteMean = absoluteSum / real (length afterAbsolute);
                 relativeLufs = add_db (meanSquareToLufs absoluteMean) RELATIVE_GATE_LU;
                 relativeThreshold = lufsToMeanSquare relativeLufs;
                 afterRelative = filter (\<lambda>ms. ms > relativeThreshold) afterAbsolute
             in if length afterRelative = 0 then 0
                else foldl (+) 0 afterRelative / real (length afterRelative))"

text \<open>
  The result is \<open>None\<close> where the block loop does not return, \<open>Some (Inl e)\<close> for a
  throw, \<open>Some (Inr l)\<close> for the loudness \<open>l\<close>.
\<close>

definition calculateIntegratedLoudness :: "Float32Array list \<Rightarrow> real \<Rightarrow> (error + db) option" where
  "calculateIntegratedLoudness chs rate =
     (if length chs = 0 then Some (Inr MinusInfinity)
      else case map_throwing (\<lambda>channel. applyKWeighting channel rate) chs of
             Inl e \<Rightarrow> Some (Inl e)
           | Inr kWeighted \<Rightarrow>
               (case calculateBlockMeanSquares kWeighted rate of
                  None \<Rightarrow> None
                | Some (Inl e) \<Rightarrow> Some (Inl e)
                | Some (Inr blockMeanSquares) \<Rightarrow>
                    if length blockMeanSquares = 0 then Some (Inr MinusInfinity)
                    else
                      let integratedMeanSquare = applyGating blockMeanSquares
                      in if integratedMeanSquare = 0 then Some (Inr MinusInfinity)
                         else Some (Inr (meanSquareToLufs integratedMeanSquare))))"

section \<open>dsp/true-peak.ts\<close>

definition OVERSAMPLING_FACTOR :: nat where "OVERSAMPLING_FACTOR = 4"
definition FIR_TAPS_PER_PHASE :: nat where "FIR_TAPS_PER_PHASE = 12"
definition TOTAL_TAPS :: nat where "TOTAL_TAPS = OVERSAMPLING_FACTOR * FIR_TAPS_PER_PHASE"

function besselI0_loop :: "real \<Rightarrow> nat \<Rightarrow> real \<Rightarrow> real \<Rightarrow> real" where
  "besselI0_loop halfX k term acc =
     (if k \<le> 20
      then (let term' = term * ((halfX / real k) * (halfX / real k));
                acc' = acc + term'
            in if term' < 1 / 10 ^ 12 * acc' then acc'
               else besselI0_loop halfX (Suc k) term' acc')
      else acc)"
  by pat_completeness auto
termination
  by (relation "measure (\<lambda>(halfX, k, term, acc). 21 - k)") auto

declare besselI0_loop.simps [simp del]

definition besselI0 :: "real \<Rightarrow> real" where
  "besselI0 x = besselI0_loop (x / 2) 1 1 1"

definition prototype_tap :: "nat \<Rightarrow> real" where
  "prototype_tap n =
     (let sincCenter = real_of_int (Math_round ((real TOTAL_TAPS - 1) / 2 / real OVERSAMPLING_FACTOR))
                         * real OVERSAMPLING_FACTOR;
          windowCenter = (real TOTAL_TAPS - 1) / 2;
          beta = 5;
          i0Beta = besselI0 beta;
          x = (real n - sincCenter) / real OVERSAMPLING_FACTOR;
          sinc = (if \<bar>x\<bar> < 1 / 10 ^ 10 then 1 else sin (pi * x) / (pi * x));
          windowArg = (real n - windowCenter) / windowCenter;
          sqVal = 1 - windowArg * windowArg;
          window = (if sqVal \<le> 0 then 0 else besselI0 (beta * sqrt sqVal) / i0Beta)
      in sinc * window)"

text \<open>
  The table of the four phases, each divided by its own sum. No property below
  depends on the values in the table.
\<close>

definition generatePolyphaseCoefficients :: "real list list" where
  "generatePolyphaseCoefficients =
     map (\<lambda>p. let phase = map (\<lambda>k. prototype_tap (k * OVERSAMPLING_FACTOR + p)) [0..<FIR_TAPS_PER_PHASE];
                   total = foldl (+) 0 phase
               in map (\<lambda>c. c / total) phase)
         [0..<OVERSAMPLING_FACTOR]"

definition PHASES :: "real list list" where
  "PHASES = generatePolyphaseCoefficients"

text \<open>
  One pass of the loop over \<open>n\<close> in \<open>measureTruePeak\<close>: the raw sample first, then,
  from \<open>n = 11\<close> on, the four interpolated values (their reads \<open>samples[n - k]\<close> with
  \<open>k \<le> 11 \<le> n\<close> are inside the buffer).
\<close>

definition interpolate :: "real list \<Rightarrow> Float32Array \<Rightarrow> nat \<Rightarrow> real" where
  "interpolate phase samples n =
     foldl (\<lambda>acc k. acc + phase ! k * samples ! (n - k)) 0 [0..<FIR_TAPS_PER_PHASE]"

definition truePeak_step :: "Float32Array \<Rightarrow> real \<Rightarrow> nat \<Rightarrow> real" where
  "truePeak_step samples maxPeak n =
     (let rawAbs = \<bar>samples ! n\<bar>;
          maxPeak' = (if rawAbs > maxPeak then rawAbs else maxPeak)
      in if n < FIR_TAPS_PER_PHASE - 1 then maxPeak'
         else foldl (\<lambda>m p. let absValue = \<bar>interpolate (PHASES ! p) samples n\<bar>
                            in if absValue > m then absValue else m)
                maxPeak' [0..<OVERSAMPLING_FACTOR])"

definition measureTruePeak :: "Float32Array \<Rightarrow> real \<Rightarrow> real" where
  "measureTruePeak samples rate =
     (if length samples = 0 then 0
      else foldl (truePeak_step samples) 0 [0..<length samples])"

section \<open>transforms/normalize.ts\<close>

record NormalizeOptions =
  target :: "real option"
  peakLimit :: "real option"

text \<open>The gain that \<open>normalizeLoudness\<close> applies, from the two measurements.\<close>

definition normalize_gain :: "real \<Rightarrow> real \<Rightarrow> real \<Rightarrow> real \<Rightarrow> real" where
  "normalize_gain target_lufs peakLimitDb currentLoudness maxPeak =
     (let gainDb = target_lufs - currentLoudness;
          gainLinear = dbToLinear (Db gainDb);
          peakLimitLinear = dbToLinear (Db peakLimitDb);
          peakAfterGain = maxPeak * gainLinear
      in if peakAfterGain > peakLimitLinear then peakLimitLinear / maxPeak else gainLinear)"

definition normalize_maxPeak :: "Float32Array list \<Rightarrow> real \<Rightarrow> real" where
  "normalize_maxPeak chs rate =
     foldl (\<lambda>maxPeak ch. let peak = measureTruePeak ch rate
                          in if peak > maxPeak then peak else maxPeak) 0 chs"

definition normalizeLoudness ::
  "Float32Array list \<Rightarrow> real \<Rightarrow> NormalizeOptions option \<Rightarrow> (error + Float32Array list) option" where
  "normalizeLoudness chs rate opts =
     (let target_lufs = (case Option.bind opts target of None \<Rightarrow> - 14 | Some v \<Rightarrow> v);
          peakLimitDb = (case Option.bind opts peakLimit of None \<Rightarrow> - 1 | Some v \<Rightarrow> v)
      in case calculateIntegratedLoudness chs rate of
           None \<Rightarrow> None
         | Some (Inl e) \<Rightarrow> Some (Inl e)
         | Some (Inr MinusInfinity) \<Rightarrow> Some (Inr chs)
         | Some (Inr (Db currentLoudness)) \<Rightarrow>
             (let gainLinear = normalize_gain target_lufs peakLimitDb currentLoudness
                                 (normalize_maxPeak chs rate)
              in Some (Inr (map (map (\<lambda>x. fround (x * gainLinear))) chs))))"

section \<open>codecs/wav.ts\<close>

type_synonym byte = "8 word"

definition HEADER_SIZE :: nat where "HEADER_SIZE = 44"

text \<open>
  The writes of a \<^verbatim>\<open>DataView\<close>, little-endian. \<^verbatim>\<open>setUint32\<close> and \<^verbatim>\<open>setUint16\<close>
  truncate the number towards zero and reduce it modulo \<open>2^32\<close> and \<open>2^16\<close>;
  \<^verbatim>\<open>setInt16\<close> stores the same 16 bits as \<^verbatim>\<open>setUint16\<close>.
\<close>

definition ToUint32 :: "real \<Rightarrow> nat" where
  "ToUint32 x = nat (js_trunc x mod 2 ^ 32)"

definition ToUint16 :: "real \<Rightarrow> nat" where
  "ToUint16 x = nat (js_trunc x mod 2 ^ 16)"

definition u16le :: "nat \<Rightarrow> byte list" where
  "u16le v = [of_nat (v mod 256), of_nat (v div 256 mod 256)]"

definition u32le :: "nat \<Rightarrow> byte list" where
  "u32le v = [of_nat (v mod 256), of_nat (v div 256 mod 256),
              of_nat (v div 65536 mod 256), of_nat (v div 16777216 mod 256)]"

text \<open>\<^verbatim>\<open>buffer.write(s, offset)\<close> for a string of ASCII characters.\<close>

definition ascii_bytes :: "string \<Rightarrow> byte list" where
  "ascii_bytes s = map (\<lambda>c. of_nat (of_char c)) s"

text \<open>
  One sample of the interleaved data. A channel shorter than the first one reads
  \<^verbatim>\<open>undefined\<close>; \<^verbatim>\<open>Math.min\<close> and \<^verbatim>\<open>Math.max\<close> make it \<^verbatim>\<open>NaN\<close>, and
  \<^verbatim>\<open>setInt16\<close> stores \<^verbatim>\<open>NaN\<close> as 0.
\<close>

definition encode_sample :: "Float32Array \<Rightarrow> nat \<Rightarrow> byte list" where
  "encode_sample ch i =
     (if i < length ch
      then (let clamped = max (- 1) (min 1 (ch ! i));
                int16 = (if clamped < 0 then clamped * 32768 else clamped * 32767)
            in u16le (ToUint16 int16))
      else u16le 0)"

text \<open>
  \<open>encodeWav\<close> allocates the buffer and fills it from offset 0 to the end, without a
  gap and without writing a byte twice: the 44 bytes of the header, then one frame per
  sample index. The result is the concatenation of what is written. The limit of the
  runtime on the size of a buffer is not modelled.
\<close>

definition encodeWav :: "Float32Array list \<Rightarrow> real \<Rightarrow> error + byte list" where
  "encodeWav chs rate =
     (case chs of
        [] \<Rightarrow> Inl TypeError
      | ch0 # _ \<Rightarrow>
          (let numChannels = length chs;
               numSamples = length ch0;
               dataSize = numSamples * numChannels * 2;
               fileSize = HEADER_SIZE + dataSize
           in Inr (ascii_bytes ''RIFF'' @ u32le (ToUint32 (real (fileSize - 8)))
                   @ ascii_bytes ''WAVE''
                   @ ascii_bytes ''fmt '' @ u32le (ToUint32 16)
                   @ u16le (ToUint16 1)
                   @ u16le (ToUint16 (real numChannels))
                   @ u32le (ToUint32 rate)
                   @ u32le (ToUint32 (rate * real numChannels * 2))
                   @ u16le (ToUint16 (real (numChannels * 2)))
                   @ u16le (ToUint16 16)
                   @ ascii_bytes ''data'' @ u32le (ToUint32 (real dataSize))
                   @ concat (map (\<lambda>i. concat (map (\<lambda>ch. encode_sample ch i) chs))
                               [0..<numSamples]))))"

text \<open>
  The reads of the \<^verbatim>\<open>DataView\<close>. The header fields are read at fixed offsets below
  44, after the check of the length. \<^verbatim>\<open>getInt16\<close> in the sample loop is at an offset
  that the header decides: it throws a \<^verbatim>\<open>RangeError\<close> when the two bytes are not
  inside the buffer.
\<close>

definition read_u16 :: "byte list \<Rightarrow> nat \<Rightarrow> nat" where
  "read_u16 buf off = unat (buf ! off) + 256 * unat (buf ! (off + 1))"

definition read_u32 :: "byte list \<Rightarrow> nat \<Rightarrow> nat" where
  "read_u32 buf off = unat (buf ! off) + 256 * unat (buf ! (off + 1))
                      + 65536 * unat (buf ! (off + 2)) + 16777216 * unat (buf ! (off + 3))"

definition getInt16 :: "byte list \<Rightarrow> nat \<Rightarrow> error + int" where
  "getInt16 buf off =
     (if off + 2 \<le> length buf
      then (let u = read_u16 buf off
            in Inr (if u \<ge> 32768 then int u - 65536 else int u))
      else Inl RangeError)"

text \<open>\<^verbatim>\<open>buffer.toString("ascii", start, end)\<close> clears the highest bit of every byte.\<close>

definition ascii_toString :: "byte list \<Rightarrow> string" where
  "ascii_toString bs = map (\<lambda>b. char_of (unat b mod 128)) bs"

text \<open>\<open>i < numSamples\<close>, where \<open>numSamples\<close> is a quotient of non-negative numbers.\<close>

fun less_jsnum :: "nat \<Rightarrow> jsnum \<Rightarrow> bool" where
  "less_jsnum i (Num r) = (real i < r)"
| "less_jsnum i Infinite = True"
| "less_jsnum i NaN = False"

text \<open>
  The inner loop over the channels at the sample index \<open>i\<close>. The store
  \<open>channels[ch][i] = v\<close> beyond the end of the array does nothing, as \<open>list_update\<close>.
\<close>

function decode_frame ::
  "byte list \<Rightarrow> nat \<Rightarrow> nat \<Rightarrow> nat \<Rightarrow> Float32Array list \<Rightarrow> nat
   \<Rightarrow> error + (Float32Array list \<times> nat)" where
  "decode_frame buf numChannels i ch chans offset =
     (if ch < numChannels
      then (case getInt16 buf offset of
              Inl e \<Rightarrow> Inl e
            | Inr int16 \<Rightarrow>
                decode_frame buf numChannels i (Suc ch)
                  (chans[ch := (chans ! ch)[i := fround (real_of_int int16 / 32768)]]) (offset + 2))
      else Inr (chans, offset))"
  by pat_completeness auto
termination
  by (relation "measure (\<lambda>(buf, numChannels, i, ch, chans, offset). numChannels - ch)") auto

declare decode_frame.simps [simp del]

text \<open>
  The outer loop over the sample index. Its bound comes from the header and may be
  \<^verbatim>\<open>Infinity\<close>, so the loop is a partial function: \<open>None\<close> is "does not return".
\<close>

partial_function (option) decode_loop ::
  "byte list \<Rightarrow> nat \<Rightarrow> jsnum \<Rightarrow> nat \<Rightarrow> Float32Array list \<Rightarrow> nat
   \<Rightarrow> (error + Float32Array list) option" where
  "decode_loop buf numChannels numSamples i chans offset =
     (if less_jsnum i numSamples
      then (case decode_frame buf numChannels i 0 chans offset of
              Inl e \<Rightarrow> Some (Inl e)
            | Inr r \<Rightarrow> decode_loop buf numChannels numSamples (Suc i) (fst r) (snd r))
      else Some (Inr chans))"

definition decodeWav :: "byte list \<Rightarrow> (error + Float32Array list \<times> real) option" where
  "decodeWav buf =
     (if length buf < HEADER_SIZE then Some (Inl InvalidWav)
      else
        let riff = ascii_toString (take 4 buf);
            wave = ascii_toString (take 4 (drop 8 buf))
        in if riff \<noteq> ''RIFF'' \<or> wave \<noteq> ''WAVE'' then Some (Inl InvalidWav)
           else
             let numChannels = read_u16 buf 22;
                 sampleRate' = read_u32 buf 24;
                 bitsPerSample = read_u16 buf 34;
                 dataSize = read_u32 buf 40;
                 bytesPerSample = real bitsPerSample / 8;
                 numSamples = js_div (real dataSize) (real numChannels * bytesPerSample)
             in case map_throwing (\<lambda>ch. new_Float32Array numSamples) [0..<numChannels] of
                  Inl e \<Rightarrow> Some (Inl e)
                | Inr chans \<Rightarrow>
                    (case decode_loop buf numChannels numSamples 0 chans HEADER_SIZE of
                       None \<Rightarrow> None
                     | Some (Inl e) \<Rightarrow> Some (Inl e)
                     | Some (Inr chans') \<Rightarrow> Some (Inr (chans', real sampleRate'))))"

text \<open>\<open>decodeWav(encodeWav(c, r))\<close>, for the round trip.\<close>

definition decode_encode :: "Float32Array list \<Rightarrow> real \<Rightarrow> (error + Float32Array list \<times> real) option" where
  "decode_encode chs rate =
     (case encodeWav chs rate of Inl e \<Rightarrow> Some (Inl e) | Inr buf \<Rightarrow> decodeWav buf)"

text \<open>
  What the round trip makes of one sample: the 16-bit value, divided by 32768 (a
  number that a 32-bit float holds exactly, lemma \<open>fround_int16\<close> below).
\<close>

definition quantize :: "real \<Rightarrow> real" where
  "quantize x =
     (let clamped = max (- 1) (min 1 x);
          int16 = (if clamped < 0 then clamped * 32768 else clamped * 32767)
      in real_of_int (js_trunc int16) / 32768)"

text \<open>
  A WAV file cut after its header: 44 bytes, one channel, 44100 Hz, 16 bits per
  sample, and a data size of 2 although no sample follows.
\<close>

definition header_without_payload :: "byte list" where
  "header_without_payload =
     [0x52, 0x49, 0x46, 0x46,  38, 0, 0, 0,  0x57, 0x41, 0x56, 0x45,
      0x66, 0x6D, 0x74, 0x20,  16, 0, 0, 0,  1, 0,  1, 0,
      0x44, 0xAC, 0, 0,  0x88, 0x58, 0x01, 0,  2, 0,  16, 0,
      0x64, 0x61, 0x74, 0x61,  2, 0, 0, 0]"

section \<open>transforms/concat.ts, transforms/mix.ts, transforms/speed.ts\<close>

text \<open>
  \<^verbatim>\<open>concatChannels(a, b)\<close> maps over \<open>a\<close> and reads \<open>b[i]\<close>. Where \<open>b\<close> has fewer
  channels than \<open>a\<close>, \<open>b[i]\<close> is \<^verbatim>\<open>undefined\<close> and reading its length throws a
  \<^verbatim>\<open>TypeError\<close>; the channels of \<open>b\<close> beyond those of \<open>a\<close> are ignored.
\<close>

definition concatChannels :: "Float32Array list \<Rightarrow> Float32Array list \<Rightarrow> error + Float32Array list" where
  "concatChannels a b =
     (if length b < length a then Inl TypeError
      else Inr (map (\<lambda>i. (a ! i) @ (b ! i)) [0..<length a]))"

definition mixChannels ::
  "Float32Array list \<Rightarrow> Float32Array list \<Rightarrow> real option \<Rightarrow> error + Float32Array list" where
  "mixChannels a b gainDb =
     (let gain = dbToLinear (Db (case gainDb of None \<Rightarrow> 0 | Some g \<Rightarrow> g))
      in if length b < length a then Inl TypeError
         else Inr (map (\<lambda>i.
                let aCh = a ! i; bCh = b ! i
                in map (\<lambda>j. fround ((if j < length aCh then aCh ! j else 0)
                                      + (if j < length bCh then bCh ! j * gain else 0)))
                       [0..<max (length aCh) (length bCh)])
              [0..<length a]))"

text \<open>
  \<^verbatim>\<open>changeSpeed(channels, rate)\<close>. There is no check of \<open>rate\<close>: the only failure is
  the \<^verbatim>\<open>RangeError\<close> of the allocation when \<^verbatim>\<open>Math.round(ch.length / rate)\<close> is
  negative or infinite. Whenever the loop body runs, both reads are inside the channel
  (lemma \<open>changeSpeed_reads_in_range\<close> below), so they are written with \<open>!\<close>. The
  quotient and the products are the exact ones, where the code has those of doubles: for
  some rates the two lengths differ by one.
\<close>

definition speed_newLength :: "Float32Array \<Rightarrow> real \<Rightarrow> jsnum" where
  "speed_newLength ch rate =
     (case js_div (real (length ch)) rate of
        Num q \<Rightarrow> Num (real_of_int (Math_round q))
      | Infinite \<Rightarrow> Infinite
      | NaN \<Rightarrow> NaN)"

definition speed_sample :: "Float32Array \<Rightarrow> real \<Rightarrow> nat \<Rightarrow> real" where
  "speed_sample ch rate i =
     (let srcIndex = real i * rate;
          idx0 = \<lfloor>srcIndex\<rfloor>;
          idx1 = min (idx0 + 1) (int (length ch) - 1);
          frac = srcIndex - real_of_int idx0
      in fround (ch ! nat idx0 * (1 - frac) + ch ! nat idx1 * frac))"

definition changeSpeed_channel :: "real \<Rightarrow> Float32Array \<Rightarrow> error + Float32Array" where
  "changeSpeed_channel rate ch =
     (case new_Float32Array (speed_newLength ch rate) of
        Inl e \<Rightarrow> Inl e
      | Inr out \<Rightarrow> Inr (map (speed_sample ch rate) [0..<length out]))"

definition changeSpeed :: "Float32Array list \<Rightarrow> real \<Rightarrow> error + Float32Array list" where
  "changeSpeed chs rate = map_throwing (changeSpeed_channel rate) chs"

section \<open>transforms/trim-silence.ts\<close>

record TrimOptions =
  threshold :: "real option"
  headMs :: "real option"
  tailMs :: "real option"

text \<open>
  The inner loop over the channels at index \<open>i\<close>. A channel shorter than the first
  one reads \<^verbatim>\<open>undefined\<close> there, \<^verbatim>\<open>Math.abs\<close> of it is \<^verbatim>\<open>NaN\<close>, and the
  comparison is false. In \<open>trimSilence\<close> the two sample counts are floors of exact
  products, where the code floors the products of doubles; with the default of 0 ms both
  are 0.
\<close>

definition aboveThreshold :: "Float32Array list \<Rightarrow> real \<Rightarrow> nat \<Rightarrow> bool" where
  "aboveThreshold chs thr i = list_ex (\<lambda>ch. i < length ch \<and> \<bar>ch ! i\<bar> > thr) chs"

definition trimSilence ::
  "Float32Array list \<Rightarrow> real \<Rightarrow> TrimOptions option \<Rightarrow> error + Float32Array list" where
  "trimSilence chs rate opts =
     (let thr = (case Option.bind opts threshold of None \<Rightarrow> 0.01 | Some v \<Rightarrow> v);
          head_ms = (case Option.bind opts headMs of None \<Rightarrow> 0 | Some v \<Rightarrow> v);
          tail_ms = (case Option.bind opts tailMs of None \<Rightarrow> 0 | Some v \<Rightarrow> v);
          headSamples = \<lfloor>head_ms / 1000 * rate\<rfloor>;
          tailSamples = \<lfloor>tail_ms / 1000 * rate\<rfloor>
      in case chs of
           [] \<Rightarrow> Inl TypeError
         | ch0 # _ \<Rightarrow>
             (let numSamples = length ch0;
                  start = (case find (aboveThreshold chs thr) [0..<numSamples] of
                             None \<Rightarrow> 0 | Some i \<Rightarrow> int i);
                  endIdx = (case find (aboveThreshold chs thr) (rev [0..<numSamples]) of
                             None \<Rightarrow> int numSamples - 1 | Some i \<Rightarrow> int i);
                  trimStart = max 0 (start - headSamples);
                  trimEnd = min (int numSamples - 1) (endIdx + tailSamples)
              in Inr (map (\<lambda>ch. slice_array ch trimStart (trimEnd + 1)) chs)))"

section \<open>audio-track.ts: the class and the methods over the transforms above\<close>

record AudioTrack =
  channels :: "Float32Array list"
  sampleRate :: real

text \<open>
  \<^verbatim>\<open>fromChannels\<close> calls the private constructor, which stores both arguments. No
  path of it throws; the sum type is there so that a failure could be stated.
\<close>

definition AudioTrack_fromChannels :: "Float32Array list \<Rightarrow> real \<Rightarrow> error + AudioTrack" where
  "AudioTrack_fromChannels chs rate = Inr \<lparr> channels = chs, sampleRate = rate \<rparr>"

definition AudioTrack_concat :: "AudioTrack \<Rightarrow> AudioTrack \<Rightarrow> error + AudioTrack" where
  "AudioTrack_concat this other =
     (if length (channels this) \<noteq> length (channels other) then Inl ChannelCountMismatch
      else case concatChannels (channels this) (channels other) of
             Inl e \<Rightarrow> Inl e
           | Inr chs \<Rightarrow> Inr \<lparr> channels = chs, sampleRate = sampleRate this \<rparr>)"

definition AudioTrack_mix :: "AudioTrack \<Rightarrow> AudioTrack \<Rightarrow> real option \<Rightarrow> error + AudioTrack" where
  "AudioTrack_mix this other gainDb =
     (case mixChannels (channels this) (channels other) gainDb of
        Inl e \<Rightarrow> Inl e
      | Inr chs \<Rightarrow> Inr \<lparr> channels = chs, sampleRate = sampleRate this \<rparr>)"

definition AudioTrack_speed :: "AudioTrack \<Rightarrow> real \<Rightarrow> error + AudioTrack" where
  "AudioTrack_speed this rate =
     (case changeSpeed (channels this) rate of
        Inl e \<Rightarrow> Inl e
      | Inr chs \<Rightarrow> Inr \<lparr> channels = chs, sampleRate = sampleRate this \<rparr>)"

definition AudioTrack_trimSilence :: "AudioTrack \<Rightarrow> TrimOptions option \<Rightarrow> error + AudioTrack" where
  "AudioTrack_trimSilence this opts =
     (case trimSilence (channels this) (sampleRate this) opts of
        Inl e \<Rightarrow> Inl e
      | Inr chs \<Rightarrow> Inr \<lparr> channels = chs, sampleRate = sampleRate this \<rparr>)"

definition AudioTrack_loudness :: "AudioTrack \<Rightarrow> (error + db) option" where
  "AudioTrack_loudness this = calculateIntegratedLoudness (channels this) (sampleRate this)"

definition AudioTrack_truePeak :: "AudioTrack \<Rightarrow> real" where
  "AudioTrack_truePeak this =
     foldl (\<lambda>peak ch. let p = measureTruePeak ch (sampleRate this)
                       in if p > peak then p else peak) 0 (channels this)"

definition AudioTrack_normalize ::
  "AudioTrack \<Rightarrow> NormalizeOptions option \<Rightarrow> (error + AudioTrack) option" where
  "AudioTrack_normalize this opts =
     (case normalizeLoudness (channels this) (sampleRate this) opts of
        None \<Rightarrow> None
      | Some (Inl e) \<Rightarrow> Some (Inl e)
      | Some (Inr chs) \<Rightarrow> Some (Inr \<lparr> channels = chs, sampleRate = sampleRate this \<rparr>))"

text \<open>Invariant I1 of the specification: all channel buffers have the same length.\<close>

definition I1 :: "AudioTrack \<Rightarrow> bool" where
  "I1 t = (\<forall>c \<in> set (channels t). \<forall>d \<in> set (channels t). length c = length d)"

text \<open>The state of a filter that has seen no sample, or only a reset.\<close>

definition zero_state :: "BiquadFilter \<Rightarrow> bool" where
  "zero_state f \<longleftrightarrow> x1 f = 0 \<and> x2 f = 0 \<and> y1 f = 0 \<and> y2 f = 0"

section \<open>Properties\<close>

subsection \<open>32-bit floats\<close>

lemma round_half_even_of_int: "round_half_even (real_of_int k) = k"
  by (simp add: round_half_even_def)

lemma fround_zero: "fround 0 = 0"
  by (simp add: fround_def)

lemma fround_exact:
  assumes x: "x = real_of_int m * 2 powr real_of_int j" and m: "\<bar>m\<bar> < 2 ^ 24" and j: "- 149 \<le> j"
  shows "fround x = x"
proof (cases "m = 0")
  case True
  then show ?thesis using x by (simp add: fround_def)
next
  case False
  have p: "0 < (2::real) powr real_of_int j" by simp
  have x0: "x \<noteq> 0" using False x by simp
  have ax: "\<bar>x\<bar> = real_of_int \<bar>m\<bar> * 2 powr real_of_int j"
    unfolding x by (simp add: abs_mult)
  have "real_of_int \<bar>m\<bar> < real_of_int (2 ^ 24)" using m by (simp only: of_int_less_iff)
  then have "real_of_int \<bar>m\<bar> < 2 ^ 24" by simp
  then have "\<bar>x\<bar> < 2 ^ 24 * 2 powr real_of_int j"
    unfolding ax using p by (simp add: mult_strict_right_mono)
  also have "\<dots> = 2 powr real_of_int (24 + j)"
    by (simp add: powr_add)
  finally have lt: "\<bar>x\<bar> < 2 powr real_of_int (24 + j)" .
  have "log 2 \<bar>x\<bar> < real_of_int (24 + j)"
    using lt x0 by (simp add: log_less_iff)
  then have fl: "\<lfloor>log 2 \<bar>x\<bar>\<rfloor> < 24 + j" by (simp add: floor_less_iff)
  define e where "e = max \<lfloor>log 2 \<bar>x\<bar>\<rfloor> (- 126)"
  have e: "e - 23 \<le> j" unfolding e_def using fl j by simp
  define n where "n = nat (j - (e - 23))"
  have n: "real_of_int j = real_of_int (e - 23) + real n" unfolding n_def using e by simp
  let ?ulp = "2 powr real_of_int (e - 23)"
  have u: "0 < ?ulp" by simp
  have "x / ?ulp = real_of_int m * (2 powr real_of_int j / ?ulp)" unfolding x by simp
  also have "2 powr real_of_int j / ?ulp = 2 powr real n"
    unfolding n by (simp add: powr_add)
  also have "(2::real) powr real n = 2 ^ n" by (simp add: powr_realpow)
  finally have q: "x / ?ulp = real_of_int (m * 2 ^ n)" by simp
  have "fround x = real_of_int (round_half_even (x / ?ulp)) * ?ulp"
    using x0 by (simp add: fround_def e_def Let_def)
  also have "\<dots> = x / ?ulp * ?ulp" unfolding q round_half_even_of_int ..
  also have "\<dots> = x" using u by simp
  finally show ?thesis .
qed

lemma fround_binade:
  assumes lo: "2 powr real_of_int e \<le> \<bar>x\<bar>" and hi: "\<bar>x\<bar> < 2 powr real_of_int (e + 1)"
    and e: "- 126 \<le> e"
  shows "fround x = real_of_int (round_half_even (x / 2 powr real_of_int (e - 23)))
                      * 2 powr real_of_int (e - 23)"
proof -
  have x0: "x \<noteq> 0" using lo by (auto simp: not_le)
  have "real_of_int e \<le> log 2 \<bar>x\<bar>" using lo x0 by (simp add: le_log_iff)
  moreover have "log 2 \<bar>x\<bar> < real_of_int e + 1" using hi x0 by (simp add: log_less_iff)
  ultimately have "\<lfloor>log 2 \<bar>x\<bar>\<rfloor> = e" by (simp add: floor_eq_iff)
  then show ?thesis using x0 e by (simp add: fround_def Let_def)
qed

lemma fround_three_quarters: "fround (3 / 4) = 3 / 4"
  by (rule fround_exact[where m = 3 and j = "- 2"]) (simp_all add: powr_neg_numeral)

lemma fround_int16:
  assumes "- 32768 \<le> k" "k \<le> 32767"
  shows "fround (real_of_int k / 32768) = real_of_int k / 32768"
  by (rule fround_exact[where m = k and j = "- 15"]) (use assms in \<open>simp_all add: powr_neg_numeral\<close>)

lemma fround_prefilter_half:
  "fround (153512485958697 / 200000000000000) = 12877561 / 16777216"
proof -
  have "fround (153512485958697 / 200000000000000)
      = real_of_int (round_half_even ((153512485958697 / 200000000000000) / 2 powr real_of_int (- 1 - 23)))
          * 2 powr real_of_int (- 1 - 23)"
    by (rule fround_binade) simp_all
  also have "\<dots> = 12877561 / 16777216"
    by (simp add: round_half_even_def powr_neg_numeral)
  finally show ?thesis .
qed

subsection \<open>Biquad filter\<close>

lemma processBuffer_loop_sequential:
  "i \<le> length inp \<Longrightarrow> length out = length inp \<Longrightarrow>
   processBuffer_loop f inp i out =
     (take i out @ map fround (fst (sequential_process f (drop i inp))),
      snd (sequential_process f (drop i inp)))"
proof (induction f inp i out rule: processBuffer_loop.induct)
  case (1 f inp i out)
  show ?case
  proof (cases "i < length inp")
    case False
    with "1.prems" show ?thesis by (subst processBuffer_loop.simps) simp
  next
    case True
    obtain y f' where p: "process f (inp ! i) = (y, f')" by (cases "process f (inp ! i)")
    have d: "drop i inp = inp ! i # drop (Suc i) inp"
      using True by (simp add: Cons_nth_drop_Suc)
    have ih: "processBuffer_loop f' inp (Suc i) (out[i := fround y]) =
        (take (Suc i) (out[i := fround y]) @ map fround (fst (sequential_process f' (drop (Suc i) inp))),
         snd (sequential_process f' (drop (Suc i) inp)))"
      using "1.IH"[OF True p[symmetric]] True "1.prems" by simp
    have t: "take (Suc i) (out[i := fround y]) = take i out @ [fround y]"
      using True "1.prems" by (simp add: take_Suc_conv_app_nth)
    have "processBuffer_loop f inp i out = processBuffer_loop f' inp (Suc i) (out[i := fround y])"
      using True p by (subst processBuffer_loop.simps) simp
    then show ?thesis
      unfolding ih t d by (simp add: p split: prod.splits)
  qed
qed

text \<open>
  C6, as amended. For every filter (its normalised coefficients and its state) and
  every input buffer, the \<open>i\<close>-th output of \<open>processBuffer\<close> is the 32-bit float nearest
  to the number that the \<open>i\<close>-th of the sequential calls of \<open>process\<close> returns, and
  \<open>processBuffer\<close> leaves the filter in exactly the state the last of these calls leaves
  it in.
\<close>

theorem processBuffer_rounds_sequential_process:
  "processBuffer f inp =
     (map fround (fst (sequential_process f inp)), snd (sequential_process f inp))"
  unfolding processBuffer_def
  by (simp add: processBuffer_loop_sequential)

lemma process_prefilter_half:
  "process (newBiquadFilter PREFILTER_48000) (1 / 2)
     = (153512485958697 / 200000000000000,
        (newBiquadFilter PREFILTER_48000)\<lparr> x1 := 1 / 2, y1 := 153512485958697 / 200000000000000 \<rparr>)"
  by (simp add: process_def newBiquadFilter_def PREFILTER_48000_def Let_def)

text \<open>
  The claim as it was stated, that an output is exactly the number \<open>process\<close>
  returns, fails: on the sample \<open>0.5\<close> the pre-filter of 48000 Hz returns
  \<open>0.767562429793485\<close>, and the buffer holds the float \<open>12877561 / 2^24\<close>.
\<close>

theorem processBuffer_output_differs_from_process:
  "fst (process (newBiquadFilter PREFILTER_48000) (1 / 2)) = 153512485958697 / 200000000000000
   \<and> fst (processBuffer (newBiquadFilter PREFILTER_48000) [1 / 2]) = [12877561 / 16777216]
   \<and> (12877561 / 16777216 :: real) \<noteq> 153512485958697 / 200000000000000"
proof -
  have a: "fst (process (newBiquadFilter PREFILTER_48000) (1 / 2)) = 153512485958697 / 200000000000000"
    by (simp add: process_prefilter_half)
  have "processBuffer (newBiquadFilter PREFILTER_48000) [1 / 2]
      = (map fround (fst (sequential_process (newBiquadFilter PREFILTER_48000) [1 / 2])),
         snd (sequential_process (newBiquadFilter PREFILTER_48000) [1 / 2]))"
    unfolding processBuffer_def by (simp add: processBuffer_loop_sequential)
  then have b: "fst (processBuffer (newBiquadFilter PREFILTER_48000) [1 / 2]) = [12877561 / 16777216]"
    by (simp add: process_prefilter_half fround_prefilter_half)
  have c: "(12877561 / 16777216 :: real) \<noteq> 153512485958697 / 200000000000000" by simp
  show ?thesis by (intro conjI) (rule a, rule b, rule c)
qed

subsection \<open>Transforms and the track methods over them\<close>

lemma changeSpeed_reads_in_range:
  assumes a: "new_Float32Array (speed_newLength ch rate) = Inr out" and i: "i < length out"
  shows "0 \<le> \<lfloor>real i * rate\<rfloor> \<and> \<lfloor>real i * rate\<rfloor> < int (length ch)
       \<and> 0 \<le> min (\<lfloor>real i * rate\<rfloor> + 1) (int (length ch) - 1)
       \<and> min (\<lfloor>real i * rate\<rfloor> + 1) (int (length ch) - 1) < int (length ch)"
proof -
  have r0: "rate \<noteq> 0"
    using a i by (auto simp: speed_newLength_def js_div_def split: if_splits)
  then have n: "speed_newLength ch rate = Num (real_of_int (Math_round (real (length ch) / rate)))"
    by (simp add: speed_newLength_def js_div_def)
  have len: "int (length out) = Math_round (real (length ch) / rate)"
    using a i unfolding n by (auto simp: js_trunc_def split: if_splits)
  have "real i + 1 \<le> real_of_int (Math_round (real (length ch) / rate))"
    using i len by linarith
  also have "\<dots> \<le> real (length ch) / rate + 1 / 2"
    unfolding Math_round_def by linarith
  finally have q: "real i + 1 / 2 \<le> real (length ch) / rate" by simp
  have qpos: "0 < real (length ch) / rate" using q by linarith
  have rpos: "0 < rate"
  proof (rule ccontr)
    assume "\<not> 0 < rate"
    then have "rate < 0" using r0 by simp
    then have "real (length ch) / rate \<le> 0" by (simp add: divide_nonneg_neg)
    with qpos show False by simp
  qed
  have "(real i + 1 / 2) * rate \<le> real (length ch)"
    using q rpos by (simp add: pos_le_divide_eq)
  then have lt: "real i * rate < real (length ch)"
    using rpos by (simp add: algebra_simps)
  have ge: "0 \<le> real i * rate" using rpos by simp
  have f0: "0 \<le> \<lfloor>real i * rate\<rfloor>" using ge by simp
  have f1: "\<lfloor>real i * rate\<rfloor> < int (length ch)" using lt by (simp add: floor_less_iff)
  have m: "min (\<lfloor>real i * rate\<rfloor> + 1) (int (length ch) - 1) = \<lfloor>real i * rate\<rfloor> + 1
        \<or> min (\<lfloor>real i * rate\<rfloor> + 1) (int (length ch) - 1) = int (length ch) - 1"
    by (simp add: min_def)
  from m f0 f1 show ?thesis by linarith
qed

lemma changeSpeed_channel_positive:
  assumes "0 < rate"
  shows "\<exists>out. changeSpeed_channel rate ch = Inr out
           \<and> int (length out) = Math_round (real (length ch) / rate)"
proof -
  have "0 \<le> real (length ch) / rate" using assms by simp
  then have "0 \<le> Math_round (real (length ch) / rate)"
    unfolding Math_round_def by simp
  then show ?thesis using assms
    by (simp add: changeSpeed_channel_def speed_newLength_def js_div_def js_trunc_def)
qed

lemma map_throwing_all_Inr:
  "(\<And>x. x \<in> set xs \<Longrightarrow> \<exists>y. g x = Inr y \<and> P x y) \<Longrightarrow>
   \<exists>ys. map_throwing g xs = Inr ys \<and> list_all2 P xs ys"
proof (induction xs)
  case Nil then show ?case by simp
next
  case (Cons x xs)
  then obtain y where y: "g x = Inr y" "P x y" by auto
  from Cons obtain ys where ys: "map_throwing g xs = Inr ys" "list_all2 P xs ys" by auto
  show ?case using y ys by simp
qed

lemma AudioTrack_speed_positive:
  assumes "0 < rate"
  shows "\<exists>chs. AudioTrack_speed t rate = Inr \<lparr> channels = chs, sampleRate = sampleRate t \<rparr>
     \<and> list_all2 (\<lambda>ch out. int (length out) = Math_round (real (length ch) / rate)) (channels t) chs"
proof -
  obtain chs where "changeSpeed (channels t) rate = Inr chs"
    "list_all2 (\<lambda>ch out. int (length out) = Math_round (real (length ch) / rate)) (channels t) chs"
    unfolding changeSpeed_def
    using map_throwing_all_Inr[of "channels t" "changeSpeed_channel rate"
        "\<lambda>ch out. int (length out) = Math_round (real (length ch) / rate)"]
      changeSpeed_channel_positive[OF assms] by blast
  then show ?thesis by (simp add: AudioTrack_speed_def)
qed

lemma map_throwing_Inl:
  "map_throwing g xs = Inl e \<Longrightarrow> \<exists>x \<in> set xs. g x = Inl e"
  by (induction xs) (auto split: sum.splits)

lemma AudioTrack_speed_error:
  assumes "AudioTrack_speed t rate = Inl e"
  shows "e = RangeError"
proof -
  have "changeSpeed (channels t) rate = Inl e"
    using assms by (auto simp: AudioTrack_speed_def split: sum.splits)
  then obtain ch where "changeSpeed_channel rate ch = Inl e"
    unfolding changeSpeed_def using map_throwing_Inl by blast
  then have "new_Float32Array (speed_newLength ch rate) = Inl e"
    by (auto simp: changeSpeed_channel_def split: sum.splits)
  then show ?thesis
    by (cases "speed_newLength ch rate") (auto split: if_splits)
qed

lemma trimSilence_defaults:
  "trimSilence chs rate None =
   trimSilence chs rate (Some \<lparr> threshold = Some 0.01, headMs = Some 0, tailMs = Some 0 \<rparr>)"
  by (simp add: trimSilence_def)

lemma AudioTrack_concat_error:
  "AudioTrack_concat a b = Inl e \<Longrightarrow> e = ChannelCountMismatch"
  by (auto simp: AudioTrack_concat_def concatChannels_def split: if_splits)

lemma AudioTrack_mix_error:
  "AudioTrack_mix a b g = Inl e \<Longrightarrow> e = TypeError"
  by (auto simp: AudioTrack_mix_def mixChannels_def Let_def split: if_splits)

lemma default_threshold_below_minus_30_dB: "(1 / 50 :: real) \<le> 10 powr (- 30 / 20)"
proof -
  have b: "(10::real) powr (30 / 20) * 10 powr (30 / 20) = 10 powr 3"
    by (simp add: powr_add[symmetric])
  have c: "(10::real) powr 3 = 1000" by simp
  have d: "(10::real) powr (30 / 20) \<le> 50"
  proof (rule ccontr)
    assume "\<not> (10::real) powr (30 / 20) \<le> 50"
    then have "50 < (10::real) powr (30 / 20)" by simp
    then have "50 * 50 < (10::real) powr (30 / 20) * 10 powr (30 / 20)"
      by (intro mult_strict_mono) simp_all
    with b c show False by simp
  qed
  have "(10::real) powr (- 30 / 20) = 1 / 10 powr (30 / 20)"
    using powr_minus_divide[of "10::real" "30 / 20"] by simp
  moreover have "1 / 50 \<le> 1 / (10::real) powr (30 / 20)"
    using d by (intro divide_left_mono) simp_all
  ultimately show ?thesis by simp
qed

text \<open>
  C2. Without options \<open>trimSilence\<close> takes the threshold \<open>0.01\<close> (linear) and a head
  and a tail of 0 ms, and the method of the track passes its absent options on. At
  1000 Hz the documented defaults would keep 10 samples before and 50 after the one
  sample above the threshold, here the whole buffer; the code returns that sample
  alone. A sample of \<open>0.02\<close> is below \<open>10^(-30/20)\<close> and still counts as sound.
\<close>

theorem trimSilence_without_options_at_failing_input:
  "trimSilence [[0, 1 / 2, 0, 0]] 1000 None = Inr [[1 / 2]]
   \<and> AudioTrack_trimSilence \<lparr> channels = [[0, 1 / 2, 0, 0]], sampleRate = 1000 \<rparr> None
       = Inr \<lparr> channels = [[1 / 2]], sampleRate = 1000 \<rparr>
   \<and> trimSilence [[0, 1 / 50, 0]] 1000 None = Inr [[1 / 50]]
   \<and> (1 / 50 :: real) \<le> 10 powr (- 30 / 20)"
proof -
  have a: "trimSilence [[0, 1 / 2, 0, 0]] 1000 None = Inr [[1 / 2]]"
    by code_simp
  have b: "trimSilence [[0, 1 / 50, 0]] 1000 None = Inr [[1 / 50]]"
    by code_simp
  have c: "AudioTrack_trimSilence \<lparr> channels = [[0, 1 / 2, 0, 0]], sampleRate = 1000 \<rparr> None
       = Inr \<lparr> channels = [[1 / 2]], sampleRate = 1000 \<rparr>"
    by code_simp
  show ?thesis
    by (intro conjI) (rule a, rule c, rule b, rule default_threshold_below_minus_30_dB)
qed

text \<open>
  C3. \<open>concat\<close> compares the channel counts only and \<open>mix\<close> compares nothing: two
  tracks at 44100 Hz and 48000 Hz are joined, and mixed, into a track at 44100 Hz.
\<close>

theorem concat_mix_with_differing_sample_rates:
  "AudioTrack_concat \<lparr> channels = [[1 / 2]], sampleRate = 44100 \<rparr>
                     \<lparr> channels = [[1 / 4]], sampleRate = 48000 \<rparr>
     = Inr \<lparr> channels = [[1 / 2, 1 / 4]], sampleRate = 44100 \<rparr>
   \<and> AudioTrack_mix \<lparr> channels = [[1 / 2]], sampleRate = 44100 \<rparr>
                    \<lparr> channels = [[1 / 4]], sampleRate = 48000 \<rparr> None
     = Inr \<lparr> channels = [[3 / 4]], sampleRate = 44100 \<rparr>"
proof (rule conjI)
  show "AudioTrack_concat \<lparr> channels = [[1 / 2]], sampleRate = 44100 \<rparr>
                     \<lparr> channels = [[1 / 4]], sampleRate = 48000 \<rparr>
     = Inr \<lparr> channels = [[1 / 2, 1 / 4]], sampleRate = 44100 \<rparr>"
    by (simp add: AudioTrack_concat_def concatChannels_def)
  show "AudioTrack_mix \<lparr> channels = [[1 / 2]], sampleRate = 44100 \<rparr>
                    \<lparr> channels = [[1 / 4]], sampleRate = 48000 \<rparr> None
     = Inr \<lparr> channels = [[3 / 4]], sampleRate = 44100 \<rparr>"
    by (simp add: AudioTrack_mix_def mixChannels_def fround_three_quarters)
qed

text \<open>
  C4. \<open>speed\<close> does not look at the sign of the rate. On a one-sample track the rate
  \<open>-3\<close> gives the length \<open>Math.round(-1/3) = 0\<close>: a track with one empty channel comes
  back, and nothing is thrown.
\<close>

theorem speed_with_negative_rate_returns_track:
  "AudioTrack_speed \<lparr> channels = [[1 / 2]], sampleRate = 44100 \<rparr> (- 3)
     = Inr \<lparr> channels = [[]], sampleRate = 44100 \<rparr>"
  by (simp add: AudioTrack_speed_def changeSpeed_def changeSpeed_channel_def speed_newLength_def
      js_div_def Math_round_def js_trunc_def)

text \<open>
  C5, as amended. \<open>fromChannels\<close> validates nothing: for every list of channel
  buffers and every rate it returns the track that holds exactly these, never an
  error, and that track satisfies I1 exactly when the buffers given have one length.
\<close>

theorem fromChannels_stores_its_arguments:
  "AudioTrack_fromChannels chs rate = Inr \<lparr> channels = chs, sampleRate = rate \<rparr>
   \<and> (I1 \<lparr> channels = chs, sampleRate = rate \<rparr> \<longleftrightarrow>
        (\<forall>c \<in> set chs. \<forall>d \<in> set chs. length c = length d))"
  by (simp add: AudioTrack_fromChannels_def I1_def)

theorem fromChannels_stores_its_arguments_witness:
  "AudioTrack_fromChannels [[1 / 2], [1 / 4]] 48000
     = Inr \<lparr> channels = [[1 / 2], [1 / 4]], sampleRate = 48000 \<rparr>
   \<and> I1 \<lparr> channels = [[1 / 2], [1 / 4]], sampleRate = 48000 \<rparr>"
  using fromChannels_stores_its_arguments [of "[[1 / 2], [1 / 4]]" 48000] by simp

text \<open>
  The claim as it was stated fails: the empty channel list and two buffers of lengths
  1 and 2 are both accepted, and the second track violates I1.
\<close>

theorem fromChannels_accepts_empty_and_unequal:
  "AudioTrack_fromChannels [] 44100 = Inr \<lparr> channels = [], sampleRate = 44100 \<rparr>
   \<and> AudioTrack_fromChannels [[1 / 2], [1 / 4, 1 / 8]] 44100
       = Inr \<lparr> channels = [[1 / 2], [1 / 4, 1 / 8]], sampleRate = 44100 \<rparr>
   \<and> \<not> I1 \<lparr> channels = [[1 / 2], [1 / 4, 1 / 8]], sampleRate = 44100 \<rparr>"
  by (simp add: AudioTrack_fromChannels_def I1_def)

subsection \<open>True peak\<close>


lemma foldl_max_step_ge:
  "foldl (\<lambda>m x. if g x > m then g x else m) (m0::real) xs \<ge> m0"
  by (induction xs arbitrary: m0) (auto intro: order_trans less_imp_le)

lemma foldl_max_step_eq:
  "foldl (\<lambda>m x. if g x > m then g x else m) (m0::real) xs = Max (insert m0 (g ` set xs))"
proof (induction xs arbitrary: m0)
  case Nil then show ?case by simp
next
  case (Cons x xs)
  have "Max (insert (if g x > m0 then g x else m0) (g ` set xs)) = Max (insert m0 (insert (g x) (g ` set xs)))"
  proof -
    have "Max (insert m0 (insert (g x) (g ` set xs))) = max m0 (Max (insert (g x) (g ` set xs)))"
      by (rule Max_insert) simp_all
    also have "\<dots> = max (max m0 (g x)) (Max (insert (max m0 (g x)) (g ` set xs)))"
      by (cases "set xs = {}") (auto simp: max_def)
    finally show ?thesis
      by (cases "set xs = {}") (auto simp: max_def)
  qed
  then show ?case using Cons.IH[of "if g x > m0 then g x else m0"] by simp
qed

lemma truePeak_step_ge: "truePeak_step samples m n \<ge> m"
proof -
  let ?m' = "if \<bar>samples ! n\<bar> > m then \<bar>samples ! n\<bar> else m"
  have a: "?m' \<ge> m" by simp
  have b: "foldl (\<lambda>m p. if \<bar>interpolate (PHASES ! p) samples n\<bar> > m
                          then \<bar>interpolate (PHASES ! p) samples n\<bar> else m) ?m' [0..<OVERSAMPLING_FACTOR] \<ge> ?m'"
    by (rule foldl_max_step_ge)
  show ?thesis unfolding truePeak_step_def Let_def using a b by (auto simp del: abs_le_iff)
qed

lemma truePeak_step_ge_sample: "truePeak_step samples m n \<ge> \<bar>samples ! n\<bar>"
proof -
  let ?m' = "if \<bar>samples ! n\<bar> > m then \<bar>samples ! n\<bar> else m"
  have a: "?m' \<ge> \<bar>samples ! n\<bar>" by simp
  have b: "foldl (\<lambda>m p. if \<bar>interpolate (PHASES ! p) samples n\<bar> > m
                          then \<bar>interpolate (PHASES ! p) samples n\<bar> else m) ?m' [0..<OVERSAMPLING_FACTOR] \<ge> ?m'"
    by (rule foldl_max_step_ge)
  show ?thesis unfolding truePeak_step_def Let_def using a b by (auto simp del: abs_le_iff)
qed

lemma foldl_truePeak_step_ge: "foldl (truePeak_step samples) m ns \<ge> m"
proof (induction ns arbitrary: m)
  case Nil then show ?case by simp
next
  case (Cons n ns)
  have "m \<le> truePeak_step samples m n" by (rule truePeak_step_ge)
  also have "\<dots> \<le> foldl (truePeak_step samples) (truePeak_step samples m n) ns" by (rule Cons.IH)
  finally show ?case by simp
qed

lemma foldl_truePeak_step_ge_sample:
  "n \<in> set ns \<Longrightarrow> foldl (truePeak_step samples) m ns \<ge> \<bar>samples ! n\<bar>"
proof (induction ns arbitrary: m)
  case Nil then show ?case by simp
next
  case (Cons k ns)
  show ?case
  proof (cases "n = k")
    case True
    have "\<bar>samples ! n\<bar> \<le> truePeak_step samples m k" unfolding True by (rule truePeak_step_ge_sample)
    also have "\<dots> \<le> foldl (truePeak_step samples) (truePeak_step samples m k) ns"
      by (rule foldl_truePeak_step_ge)
    finally show ?thesis by simp
  next
    case False
    with Cons.prems have "n \<in> set ns" by simp
    then show ?thesis using Cons.IH by simp
  qed
qed

lemma measureTruePeak_nonneg: "0 \<le> measureTruePeak samples rate"
  unfolding measureTruePeak_def by (simp add: foldl_truePeak_step_ge)

lemma measureTruePeak_ge_sample:
  "n < length samples \<Longrightarrow> \<bar>samples ! n\<bar> \<le> measureTruePeak samples rate"
  unfolding measureTruePeak_def using foldl_truePeak_step_ge_sample[of n "[0..<length samples]" samples 0]
  by auto

lemma AudioTrack_truePeak_Max:
  "AudioTrack_truePeak t = Max (insert 0 ((\<lambda>ch. measureTruePeak ch (sampleRate t)) ` set (channels t)))"
  unfolding AudioTrack_truePeak_def Let_def by (rule foldl_max_step_eq)

lemma AudioTrack_truePeak_Max_nonempty:
  assumes "channels t \<noteq> []"
  shows "AudioTrack_truePeak t = Max ((\<lambda>ch. measureTruePeak ch (sampleRate t)) ` set (channels t))"
proof -
  let ?S = "(\<lambda>ch. measureTruePeak ch (sampleRate t)) ` set (channels t)"
  have ne: "?S \<noteq> {}" and fin: "finite ?S" using assms by auto
  obtain ch where "ch \<in> set (channels t)" using assms by (cases "channels t") auto
  then have "measureTruePeak ch (sampleRate t) \<in> ?S" by simp
  then have "measureTruePeak ch (sampleRate t) \<le> Max ?S" using fin by (rule_tac Max_ge)
  then have "0 \<le> Max ?S" using measureTruePeak_nonneg[of ch "sampleRate t"] by linarith
  then have "Max (insert 0 ?S) = Max ?S" using ne fin by (simp add: max_def)
  then show ?thesis by (simp add: AudioTrack_truePeak_Max)
qed

text \<open>
  C9. \<open>measureTruePeak\<close> is at least the absolute value of every sample of the
  buffer, the first eleven included, and is 0 on the empty buffer; \<open>truePeak\<close> of a
  track is the greatest of the true peaks of its channels (0 for a track without
  channels).
\<close>

theorem measureTruePeak_bounds_samples_and_track_max:
  "(\<forall>n < length samples. \<bar>samples ! n\<bar> \<le> measureTruePeak samples rate)
   \<and> measureTruePeak [] rate = 0
   \<and> (channels t \<noteq> [] \<longrightarrow>
        AudioTrack_truePeak t = Max ((\<lambda>ch. measureTruePeak ch (sampleRate t)) ` set (channels t)))
   \<and> (channels t = [] \<longrightarrow> AudioTrack_truePeak t = 0)"
  using measureTruePeak_ge_sample AudioTrack_truePeak_Max_nonempty
  by (simp add: measureTruePeak_def AudioTrack_truePeak_def)

theorem measureTruePeak_bounds_samples_and_track_max_witness:
  "(1::nat) < length [1 / 2, - 3 / 4 :: real]
   \<and> \<bar>[1 / 2, - 3 / 4] ! 1\<bar> \<le> measureTruePeak [1 / 2, - 3 / 4] 48000
   \<and> channels \<lparr> channels = [[1 / 2], [- 3 / 4]], sampleRate = 48000 \<rparr> \<noteq> []
   \<and> AudioTrack_truePeak \<lparr> channels = [[1 / 2], [- 3 / 4]], sampleRate = 48000 \<rparr>
      = Max ((\<lambda>ch. measureTruePeak ch 48000) ` set [[1 / 2], [- 3 / 4]])"
proof -
  note t = measureTruePeak_bounds_samples_and_track_max [of "[1 / 2, - 3 / 4]" 48000 "\<lparr> channels = [[1 / 2], [- 3 / 4]], sampleRate = 48000 \<rparr>"]
  have l: "(1::nat) < length [1 / 2, - 3 / 4 :: real]" by simp
  from t l have a: "\<bar>[1 / 2, - 3 / 4] ! 1\<bar> \<le> measureTruePeak [1 / 2, - 3 / 4] 48000" by blast
  have n: "channels \<lparr> channels = [[1 / 2], [- 3 / 4]], sampleRate = 48000 \<rparr> \<noteq> []" by simp
  from t n have "AudioTrack_truePeak \<lparr> channels = [[1 / 2], [- 3 / 4]], sampleRate = 48000 \<rparr>
      = Max ((\<lambda>ch. measureTruePeak ch (sampleRate \<lparr> channels = [[1 / 2], [- 3 / 4]], sampleRate = 48000 \<rparr>))
               ` set (channels \<lparr> channels = [[1 / 2], [- 3 / 4]], sampleRate = 48000 \<rparr>))" by blast
  then have b: "AudioTrack_truePeak \<lparr> channels = [[1 / 2], [- 3 / 4]], sampleRate = 48000 \<rparr>
      = Max ((\<lambda>ch. measureTruePeak ch 48000) ` set [[1 / 2], [- 3 / 4]])" by simp
  from l a n b show ?thesis by (intro conjI)
qed

subsection \<open>Integrated loudness\<close>

lemma processBuffer_sequential:
  "processBuffer f inp =
     (map fround (fst (sequential_process f inp)), snd (sequential_process f inp))"
  unfolding processBuffer_def by (simp add: processBuffer_loop_sequential)

lemma length_sequential_process: "length (fst (sequential_process f xs)) = length xs"
proof (induction xs arbitrary: f)
  case Nil then show ?case by simp
next
  case (Cons x xs)
  obtain y f' where p: "process f x = (y, f')" by (cases "process f x")
  obtain ys f'' where q: "sequential_process f' xs = (ys, f'')" by (cases "sequential_process f' xs")
  have "length ys = length xs" using Cons.IH[of f'] q by simp
  then show ?case by (simp add: p q)
qed

lemma process_zero:
  "zero_state f \<Longrightarrow> fst (process f 0) = 0 \<and> zero_state (snd (process f 0))"
  by (simp add: process_def zero_state_def)

lemma sequential_process_zeros:
  "zero_state f \<Longrightarrow> \<forall>x \<in> set xs. x = 0 \<Longrightarrow> \<forall>y \<in> set (fst (sequential_process f xs)). y = 0"
proof (induction xs arbitrary: f)
  case Nil then show ?case by simp
next
  case (Cons x xs)
  have x: "x = 0" using Cons.prems by simp
  obtain y f' where p: "process f 0 = (y, f')" by (cases "process f 0")
  have y: "y = 0" and z: "zero_state f'" using process_zero[OF Cons.prems(1)] p by simp_all
  have "\<forall>y \<in> set (fst (sequential_process f' xs)). y = 0"
    using Cons.IH[OF z] Cons.prems(2) by simp
  then show ?case using x y p by (auto split: prod.splits)
qed

lemma zero_state_newBiquadFilter: "zero_state (newBiquadFilter c)"
  by (simp add: zero_state_def newBiquadFilter_def)

lemma applyKWeighting_supported:
  assumes "rate = 44100 \<or> rate = 48000"
  shows "\<exists>out. applyKWeighting samples rate = Inr out \<and> length out = length samples
           \<and> ((\<forall>x \<in> set samples. x = 0) \<longrightarrow> (\<forall>y \<in> set out. y = 0))"
proof -
  obtain filters where c: "createKWeightingFilters rate = Inr filters"
    and zp: "zero_state (preFilter filters)" and zr: "zero_state (rlbFilter filters)"
    using assms by (auto simp: createKWeightingFilters_def zero_state_newBiquadFilter)
  let ?pre = "map fround (fst (sequential_process (preFilter filters) samples))"
  let ?rlb = "map fround (fst (sequential_process (rlbFilter filters) ?pre))"
  have a: "applyKWeighting samples rate = Inr ?rlb"
    by (simp add: applyKWeighting_def c processBuffer_sequential)
  have l: "length ?rlb = length samples" by (simp add: length_sequential_process)
  have z: "(\<forall>x \<in> set samples. x = 0) \<longrightarrow> (\<forall>y \<in> set ?rlb. y = 0)"
  proof
    assume "\<forall>x \<in> set samples. x = 0"
    then have "\<forall>y \<in> set (fst (sequential_process (preFilter filters) samples)). y = 0"
      by (rule sequential_process_zeros[OF zp])
    then have "\<forall>y \<in> set ?pre. y = 0" by (auto simp: fround_zero)
    then have "\<forall>y \<in> set (fst (sequential_process (rlbFilter filters) ?pre)). y = 0"
      by (rule sequential_process_zeros[OF zr])
    then show "\<forall>y \<in> set ?rlb. y = 0" by (auto simp: fround_zero)
  qed
  from a l z show ?thesis by blast
qed

lemma applyKWeighting_unsupported:
  "rate \<noteq> 44100 \<Longrightarrow> rate \<noteq> 48000 \<Longrightarrow> applyKWeighting samples rate = Inl UnsupportedSampleRate"
  by (simp add: applyKWeighting_def createKWeightingFilters_def)

lemma blocks_loop_returns:
  assumes hop: "0 < hopSize"
  shows "\<exists>bl. blocks_loop chs blockSize hopSize numSamples start blocks = Some (blocks @ bl)
             \<and> (\<forall>b \<in> set bl. \<exists>s. b = blockWeightedSum chs s blockSize)"
proof (induction "nat (numSamples - start - blockSize + 1)" arbitrary: start blocks rule: less_induct)
  case less
  show ?case
  proof (cases "start + blockSize \<le> numSamples")
    case False
    then have "blocks_loop chs blockSize hopSize numSamples start blocks = Some blocks"
      by (subst blocks_loop.simps) simp
    then show ?thesis by simp
  next
    case True
    let ?b = "blockWeightedSum chs start blockSize"
    have m: "nat (numSamples - (start + hopSize) - blockSize + 1) < nat (numSamples - start - blockSize + 1)"
      using True hop by linarith
    obtain bl where bl: "blocks_loop chs blockSize hopSize numSamples (start + hopSize) (blocks @ [?b])
         = Some ((blocks @ [?b]) @ bl)" "\<forall>b \<in> set bl. \<exists>s. b = blockWeightedSum chs s blockSize"
      using less[OF m] by blast
    have "blocks_loop chs blockSize hopSize numSamples start blocks = Some (blocks @ (?b # bl))"
      using True bl(1) by (subst blocks_loop.simps) simp
    moreover have "\<forall>b \<in> set (?b # bl). \<exists>s. b = blockWeightedSum chs s blockSize"
      using bl(2) by auto
    ultimately show ?thesis by blast
  qed
qed

lemma foldl_squares_zero:
  "\<forall>x \<in> set ch. x = (0::real) \<Longrightarrow> \<forall>i \<in> set idxs. i < length ch \<Longrightarrow>
   foldl (\<lambda>channelSum i. channelSum + ch ! i * ch ! i) acc idxs = acc"
  by (induction idxs arbitrary: acc) auto

lemma channelMeanSquare_zero:
  assumes "\<forall>x \<in> set ch. x = 0"
  shows "channelMeanSquare ch start blockSize = None \<or> channelMeanSquare ch start blockSize = Some 0"
proof -
  have "0 \<le> start \<Longrightarrow> start + blockSize \<le> int (length ch) \<Longrightarrow>
    foldl (\<lambda>channelSum i. channelSum + ch ! i * ch ! i) 0 [nat start..<nat (start + blockSize)] = 0"
    by (rule foldl_squares_zero[OF assms]) auto
  then show ?thesis by (auto simp: channelMeanSquare_def)
qed

lemma blockWeightedSum_fold_zero:
  assumes "\<forall>i \<in> set idxs. channelMeanSquare (chs ! i) start blockSize = None
                          \<or> channelMeanSquare (chs ! i) start blockSize = Some 0"
    and "acc = None \<or> acc = Some 0"
  shows "foldl (\<lambda>weightedSum ch.
              let weight = getChannelWeight ch n
              in if weight = 0 then weightedSum
                 else (case (weightedSum, channelMeanSquare (chs ! ch) start blockSize) of
                         (Some s, Some m) \<Rightarrow> Some (s + weight * m)
                       | _ \<Rightarrow> None)) acc idxs \<in> {None, Some 0}"
  using assms
proof (induction idxs arbitrary: acc)
  case Nil then show ?case by auto
next
  case (Cons i idxs)
  let ?acc' = "let weight = getChannelWeight i n
              in if weight = 0 then acc
                 else (case (acc, channelMeanSquare (chs ! i) start blockSize) of
                         (Some s, Some m) \<Rightarrow> Some (s + weight * m)
                       | _ \<Rightarrow> None)"
  have "?acc' = None \<or> ?acc' = Some 0"
    using Cons.prems by (auto simp: Let_def split: option.splits)
  then show ?case using Cons.IH[of ?acc'] Cons.prems(1) by simp
qed

lemma blockWeightedSum_zero:
  assumes "\<forall>ch \<in> set chs. \<forall>x \<in> set ch. x = 0"
  shows "blockWeightedSum chs start blockSize \<in> {None, Some 0}"
  unfolding blockWeightedSum_def
proof (rule blockWeightedSum_fold_zero)
  show "\<forall>i \<in> set [0..<length chs]. channelMeanSquare (chs ! i) start blockSize = None
                          \<or> channelMeanSquare (chs ! i) start blockSize = Some 0"
  proof
    fix i assume "i \<in> set [0..<length chs]"
    then have "chs ! i \<in> set chs" by simp
    then have "\<forall>x \<in> set (chs ! i). x = 0" using assms by blast
    then show "channelMeanSquare (chs ! i) start blockSize = None
                          \<or> channelMeanSquare (chs ! i) start blockSize = Some 0"
      by (rule channelMeanSquare_zero)
  qed
  show "Some 0 = None \<or> Some (0::real) = Some 0" by simp
qed

lemma blocks_above_none:
  "0 < thr \<Longrightarrow> \<forall>b \<in> set blocks. b \<in> {None, Some 0} \<Longrightarrow> blocks_above thr blocks = []"
  by (induction blocks) (auto simp: blocks_above_def List.map_filter_simps)

lemma applyGating_zero_blocks:
  assumes "\<forall>b \<in> set blocks. b \<in> {None, Some 0}"
  shows "applyGating blocks = 0"
proof -
  have "0 < lufsToMeanSquare (Db ABSOLUTE_GATE_LUFS)" by simp
  then have "blocks_above (lufsToMeanSquare (Db ABSOLUTE_GATE_LUFS)) blocks = []"
    using assms by (rule blocks_above_none)
  then show ?thesis by (simp add: applyGating_def Let_def)
qed


lemma map_throwing_first_fails:
  "xs \<noteq> [] \<Longrightarrow> (\<And>x. g x = Inl e) \<Longrightarrow> map_throwing g xs = Inl e"
  by (cases xs) simp_all

lemma supported_block_sizes:
  "\<lfloor>BLOCK_DURATION_SEC * 44100\<rfloor> = 17640" "\<lfloor>BLOCK_DURATION_SEC * 48000\<rfloor> = 19200"
  "\<lfloor>real_of_int 17640 * (1 - OVERLAP_RATIO)\<rfloor> = 4410"
  "\<lfloor>real_of_int 19200 * (1 - OVERLAP_RATIO)\<rfloor> = 4800"
  by (simp_all add: BLOCK_DURATION_SEC_def OVERLAP_RATIO_def)

lemma hopSize_positive:
  assumes "rate = 44100 \<or> rate = 48000"
  shows "0 < \<lfloor>real_of_int \<lfloor>BLOCK_DURATION_SEC * rate\<rfloor> * (1 - OVERLAP_RATIO)\<rfloor>"
proof -
  have "\<lfloor>real_of_int \<lfloor>BLOCK_DURATION_SEC * rate\<rfloor> * (1 - OVERLAP_RATIO)\<rfloor> = 4410
      \<or> \<lfloor>real_of_int \<lfloor>BLOCK_DURATION_SEC * rate\<rfloor> * (1 - OVERLAP_RATIO)\<rfloor> = 4800"
    using assms supported_block_sizes by (elim disjE) simp_all
  then show ?thesis by linarith
qed

lemma calculateBlockMeanSquares_supported:
  assumes r: "rate = 44100 \<or> rate = 48000" and ne: "kw \<noteq> []"
  shows "\<exists>bl. calculateBlockMeanSquares kw rate = Some (Inr bl)
           \<and> (int (length (hd kw)) < \<lfloor>BLOCK_DURATION_SEC * rate\<rfloor> \<longrightarrow> bl = [])
           \<and> (\<forall>b \<in> set bl. \<exists>s. b = blockWeightedSum kw s \<lfloor>BLOCK_DURATION_SEC * rate\<rfloor>)"
proof -
  obtain ch0 rest where kw: "kw = ch0 # rest" using ne by (cases kw) auto
  let ?bs = "\<lfloor>BLOCK_DURATION_SEC * rate\<rfloor>"
  let ?hop = "\<lfloor>real_of_int ?bs * (1 - OVERLAP_RATIO)\<rfloor>"
  show ?thesis
  proof (cases "int (length ch0) < ?bs")
    case True
    then have "calculateBlockMeanSquares kw rate = Some (Inr [])"
      by (simp add: calculateBlockMeanSquares_def kw Let_def)
    then show ?thesis by simp
  next
    case False
    obtain bl where bl: "blocks_loop kw ?bs ?hop (int (length ch0)) 0 [] = Some ([] @ bl)"
      "\<forall>b \<in> set bl. \<exists>s. b = blockWeightedSum kw s ?bs"
      using blocks_loop_returns[OF hopSize_positive[OF r]] by blast
    have "calculateBlockMeanSquares kw rate = Some (Inr bl)"
      using False bl(1) by (simp add: calculateBlockMeanSquares_def kw Let_def)
    then show ?thesis using False bl(2) by (simp add: kw)
  qed
qed

lemma kWeighted_channels:
  assumes r: "rate = 44100 \<or> rate = 48000"
  shows "\<exists>kw. map_throwing (\<lambda>channel. applyKWeighting channel rate) chs = Inr kw
     \<and> list_all2 (\<lambda>ch out. length out = length ch
                    \<and> ((\<forall>x \<in> set ch. x = 0) \<longrightarrow> (\<forall>y \<in> set out. y = 0))) chs kw"
  by (rule map_throwing_all_Inr) (use applyKWeighting_supported[OF r] in blast)

lemma loudness_short:
  assumes r: "rate = 44100 \<or> rate = 48000" and ne: "chs \<noteq> []"
    and short: "int (length (hd chs)) < \<lfloor>0.4 * rate\<rfloor>"
  shows "calculateIntegratedLoudness chs rate = Some (Inr MinusInfinity)"
proof -
  obtain kw where kw: "map_throwing (\<lambda>channel. applyKWeighting channel rate) chs = Inr kw"
    and rel: "list_all2 (\<lambda>ch out. length out = length ch
                    \<and> ((\<forall>x \<in> set ch. x = 0) \<longrightarrow> (\<forall>y \<in> set out. y = 0))) chs kw"
    using kWeighted_channels[OF r] by blast
  have kne: "kw \<noteq> []" using rel ne by auto
  have "length (hd kw) = length (hd chs)"
    using rel ne kne by (cases chs; cases kw) auto
  then have s: "int (length (hd kw)) < \<lfloor>BLOCK_DURATION_SEC * rate\<rfloor>"
    using short by (simp add: BLOCK_DURATION_SEC_def)
  obtain bl where "calculateBlockMeanSquares kw rate = Some (Inr bl)" "bl = []"
    using calculateBlockMeanSquares_supported[OF r kne] s by blast
  then show ?thesis using ne kw by (simp add: calculateIntegratedLoudness_def)
qed

lemma loudness_zeros:
  assumes r: "rate = 44100 \<or> rate = 48000" and ne: "chs \<noteq> []"
    and z: "\<forall>ch \<in> set chs. \<forall>x \<in> set ch. x = 0"
  shows "calculateIntegratedLoudness chs rate = Some (Inr MinusInfinity)"
proof -
  obtain kw where kw: "map_throwing (\<lambda>channel. applyKWeighting channel rate) chs = Inr kw"
    and rel: "list_all2 (\<lambda>ch out. length out = length ch
                    \<and> ((\<forall>x \<in> set ch. x = 0) \<longrightarrow> (\<forall>y \<in> set out. y = 0))) chs kw"
    using kWeighted_channels[OF r] by blast
  have kne: "kw \<noteq> []" using rel ne by auto
  have kz: "\<forall>ch \<in> set kw. \<forall>x \<in> set ch. x = 0"
  proof
    fix out assume "out \<in> set kw"
    then obtain i where i: "i < length kw" "kw ! i = out" by (auto simp: in_set_conv_nth)
    have li: "i < length chs" using rel i(1) by (simp add: list_all2_lengthD)
    have "(\<forall>x \<in> set (chs ! i). x = 0) \<longrightarrow> (\<forall>y \<in> set (kw ! i). y = 0)"
      using list_all2_nthD[OF rel li] by simp
    moreover have "\<forall>x \<in> set (chs ! i). x = 0" using z nth_mem[OF li] by blast
    ultimately show "\<forall>x \<in> set out. x = 0" using i(2) by simp
  qed
  obtain bl where bl: "calculateBlockMeanSquares kw rate = Some (Inr bl)"
    "\<forall>b \<in> set bl. \<exists>s. b = blockWeightedSum kw s \<lfloor>BLOCK_DURATION_SEC * rate\<rfloor>"
    using calculateBlockMeanSquares_supported[OF r kne] by blast
  have "\<forall>b \<in> set bl. b \<in> {None, Some 0}"
  proof
    fix b assume "b \<in> set bl"
    then obtain s where "b = blockWeightedSum kw s \<lfloor>BLOCK_DURATION_SEC * rate\<rfloor>"
      using bl(2) by blast
    then show "b \<in> {None, Some 0}" using blockWeightedSum_zero[OF kz] by simp
  qed
  then have "applyGating bl = 0" by (rule applyGating_zero_blocks)
  then show ?thesis using ne kw bl(1) by (simp add: calculateIntegratedLoudness_def)
qed

lemma loudness_unsupported:
  assumes "rate \<noteq> 44100" "rate \<noteq> 48000" "chs \<noteq> []"
  shows "calculateIntegratedLoudness chs rate = Some (Inl UnsupportedSampleRate)"
proof -
  have "map_throwing (\<lambda>channel. applyKWeighting channel rate) chs = Inl UnsupportedSampleRate"
    by (rule map_throwing_first_fails[OF assms(3)]) (rule applyKWeighting_unsupported[OF assms(1,2)])
  then show ?thesis using assms(3) by (simp add: calculateIntegratedLoudness_def)
qed

text \<open>
  C8. For a non-empty list of channels: at a supported rate (44100 or 48000) the
  integrated loudness is \<open>-Infinity\<close> when the first channel, whose length the code takes
  as the length of the track, is shorter than \<open>floor(0.4 * rate)\<close>, and when every sample
  is zero; at every other rate the call throws the error of the K-weighting. In each
  case the function returns.
\<close>

theorem calculateIntegratedLoudness_edge_cases:
  "(chs \<noteq> [] \<and> (rate = 44100 \<or> rate = 48000) \<and> int (length (hd chs)) < \<lfloor>0.4 * rate\<rfloor>
      \<longrightarrow> calculateIntegratedLoudness chs rate = Some (Inr MinusInfinity))
   \<and> (chs \<noteq> [] \<and> (rate = 44100 \<or> rate = 48000) \<and> (\<forall>ch \<in> set chs. \<forall>x \<in> set ch. x = 0)
      \<longrightarrow> calculateIntegratedLoudness chs rate = Some (Inr MinusInfinity))
   \<and> (chs \<noteq> [] \<and> rate \<noteq> 44100 \<and> rate \<noteq> 48000
      \<longrightarrow> calculateIntegratedLoudness chs rate = Some (Inl UnsupportedSampleRate))"
proof (intro conjI impI)
  assume "chs \<noteq> [] \<and> (rate = 44100 \<or> rate = 48000) \<and> int (length (hd chs)) < \<lfloor>0.4 * rate\<rfloor>"
  then show "calculateIntegratedLoudness chs rate = Some (Inr MinusInfinity)"
    using loudness_short[of rate chs] by blast
next
  assume "chs \<noteq> [] \<and> (rate = 44100 \<or> rate = 48000) \<and> (\<forall>ch \<in> set chs. \<forall>x \<in> set ch. x = 0)"
  then show "calculateIntegratedLoudness chs rate = Some (Inr MinusInfinity)"
    using loudness_zeros[of rate chs] by blast
next
  assume "chs \<noteq> [] \<and> rate \<noteq> 44100 \<and> rate \<noteq> 48000"
  then show "calculateIntegratedLoudness chs rate = Some (Inl UnsupportedSampleRate)"
    using loudness_unsupported[of rate chs] by blast
qed



theorem calculateIntegratedLoudness_edge_cases_witness:
  "int (length (hd [[1 / 2 :: real]])) < \<lfloor>0.4 * (48000 :: real)\<rfloor>
   \<and> calculateIntegratedLoudness [[1 / 2]] 48000 = Some (Inr MinusInfinity)
   \<and> calculateIntegratedLoudness [replicate 20000 0] 44100 = Some (Inr MinusInfinity)
   \<and> calculateIntegratedLoudness [[1 / 2]] 22050 = Some (Inl UnsupportedSampleRate)"
proof -
  have h1: "int (length (hd [[1 / 2 :: real]])) < \<lfloor>0.4 * (48000 :: real)\<rfloor>" by simp
  have a: "calculateIntegratedLoudness [[1 / 2]] 48000 = Some (Inr MinusInfinity)"
    using calculateIntegratedLoudness_edge_cases [of "[[1 / 2]]" 48000] h1 by simp
  have h2: "\<forall>ch \<in> set [replicate 20000 (0 :: real)]. \<forall>x \<in> set ch. x = 0"
    by (auto simp only: set_simps set_replicate_conv_if split: if_splits)
  have ne: "[replicate 20000 (0 :: real)] \<noteq> []" by (rule list.distinct(2))
  have r: "(44100 :: real) = 44100 \<or> (44100 :: real) = 48000" by simp
  have b: "calculateIntegratedLoudness [replicate 20000 0] 44100 = Some (Inr MinusInfinity)"
    using calculateIntegratedLoudness_edge_cases [of "[replicate 20000 0]" 44100] ne r h2 by blast
  have c: "calculateIntegratedLoudness [[1 / 2]] 22050 = Some (Inl UnsupportedSampleRate)"
    using calculateIntegratedLoudness_edge_cases [of "[[1 / 2]]" 22050] by simp
  from h1 a b c show ?thesis by (intro conjI)
qed

subsection \<open>Normalisation\<close>

lemma normalizeLoudness_defaults:
  "normalizeLoudness chs rate None =
   normalizeLoudness chs rate (Some \<lparr> target = Some (- 14), peakLimit = Some (- 1) \<rparr>)"
  by (simp add: normalizeLoudness_def)

lemma AudioTrack_normalize_defaults:
  "AudioTrack_normalize t None =
   AudioTrack_normalize t (Some \<lparr> target = Some (- 14), peakLimit = Some (- 1) \<rparr>)"
  by (simp add: AudioTrack_normalize_def normalizeLoudness_defaults)

lemma normalizeLoudness_finite:
  assumes "calculateIntegratedLoudness chs rate = Some (Inr (Db L))"
  shows "normalizeLoudness chs rate None =
     Some (Inr (map (map (\<lambda>x. fround (x * normalize_gain (- 14) (- 1) L (normalize_maxPeak chs rate))))
                  chs))"
  using assms by (simp add: normalizeLoudness_def)

lemma normalize_gain_capped:
  assumes "maxPeak * 10 powr ((T - L) / 20) > 10 powr (pl / 20)"
  shows "maxPeak * normalize_gain T pl L maxPeak = 10 powr (pl / 20)"
proof -
  have "maxPeak \<noteq> 0"
  proof
    assume "maxPeak = 0"
    with assms have "(10::real) powr (pl / 20) < 0" by simp
    then show False by (simp add: not_less)
  qed
  then show ?thesis using assms by (simp add: normalize_gain_def)
qed

lemma normalize_gain_ceiling:
  "maxPeak * normalize_gain T pl L maxPeak \<le> 10 powr (pl / 20)"
proof (cases "maxPeak * 10 powr ((T - L) / 20) > 10 powr (pl / 20)")
  case True
  then show ?thesis using normalize_gain_capped[OF True] by simp
next
  case False
  then show ?thesis by (simp add: normalize_gain_def)
qed

lemma ceiling_minus_1_above_minus_1_5: "(10::real) powr (- 1.5 / 20) < 10 powr (- 1 / 20)"
  by (rule powr_less_mono) simp_all

text \<open>
  C1. Without options the ceiling of \<open>normalizeLoudness\<close>, and of the method
  \<open>normalize\<close> of the track, which passes its absent options on, is -1 dBTP. For a
  track measured at -23 LUFS with a true peak of 1.0 the gain is capped at \<open>10^(-1/20)\<close>,
  and the peak after the gain is above \<open>10^(-1.5/20)\<close>.
\<close>

theorem normalize_without_options_ceiling_is_minus_1:
  "normalizeLoudness chs rate None =
     normalizeLoudness chs rate (Some \<lparr> target = Some (- 14), peakLimit = Some (- 1) \<rparr>)
   \<and> AudioTrack_normalize t None =
     AudioTrack_normalize t (Some \<lparr> target = Some (- 14), peakLimit = Some (- 1) \<rparr>)
   \<and> 1 * normalize_gain (- 14) (- 1) (- 23) 1 = 10 powr (- 1 / 20)
   \<and> 10 powr (- 1.5 / 20) < 1 * normalize_gain (- 14) (- 1) (- 23) 1"
proof -
  have "(10::real) powr (- 1 / 20) < 10 powr ((- 14 - (- 23)) / 20)"
    by (rule powr_less_mono) simp_all
  then have "1 * 10 powr ((- 14 - (- 23)) / 20) > (10::real) powr (- 1 / 20)" by simp
  then have g: "1 * normalize_gain (- 14) (- 1) (- 23) 1 = 10 powr (- 1 / 20)"
    by (rule normalize_gain_capped)
  have h: "10 powr (- 1.5 / 20) < 1 * normalize_gain (- 14) (- 1) (- 23) 1"
    unfolding g by (rule ceiling_minus_1_above_minus_1_5)
  show ?thesis
    by (intro conjI)
       (rule normalizeLoudness_defaults, rule AudioTrack_normalize_defaults, rule g, rule h)
qed

subsection \<open>WAV codec\<close>

lemma unat_byte_of_nat: "unat (of_nat n :: byte) = n mod 256"
  by (simp add: unat_of_nat)

lemma u16_recompose:
  assumes "v < 65536"
  shows "v mod 256 + 256 * (v div 256 mod 256) = (v::nat)"
proof -
  have "v div 256 < 256" using assms by simp
  then have "v div 256 mod 256 = v div 256" by simp
  then show ?thesis by simp
qed

lemma u32_recompose:
  assumes "v < 4294967296"
  shows "v mod 256 + 256 * (v div 256 mod 256) + 65536 * (v div 65536 mod 256)
         + 16777216 * (v div 16777216 mod 256) = (v::nat)"
proof -
  have a: "v div 16777216 mod 256 = v div 16777216" using assms by simp
  have b: "v div 65536 = 256 * (v div 16777216) + v div 65536 mod 256"
    using div_mult_mod_eq[of "v div 65536" 256] by (simp add: div_mult2_eq[symmetric] mult.commute)
  have c: "v div 256 = 256 * (v div 65536) + v div 256 mod 256"
    using div_mult_mod_eq[of "v div 256" 256] by (simp add: div_mult2_eq[symmetric] mult.commute)
  have d: "v = 256 * (v div 256) + v mod 256"
    using div_mult_mod_eq[of v 256] by (simp add: mult.commute)
  show ?thesis using a b c d by linarith
qed

lemma read_u16_bytes:
  "read_u16 (pre @ a # b # rest) (length pre) = unat a + 256 * unat b"
  by (simp add: read_u16_def nth_append)

lemma read_u32_bytes:
  "read_u32 (pre @ a # b # c # d # rest) (length pre)
     = unat a + 256 * unat b + 65536 * unat c + 16777216 * unat d"
  by (simp add: read_u32_def nth_append)

lemma read_u16_u16le: "v < 65536 \<Longrightarrow> read_u16 (pre @ u16le v @ rest) (length pre) = v"
  unfolding u16le_def append_Cons append_Nil read_u16_bytes unat_byte_of_nat mod_mod_trivial
  by (rule u16_recompose)

lemma read_u32_u32le: "v < 4294967296 \<Longrightarrow> read_u32 (pre @ u32le v @ rest) (length pre) = v"
  unfolding u32le_def append_Cons append_Nil read_u32_bytes unat_byte_of_nat mod_mod_trivial
  by (rule u32_recompose)

lemma drop_two_bytes:
  assumes d: "drop off buf = a # b # rest"
  shows "off + 2 \<le> length buf" "buf = take off buf @ a # b # rest" "length (take off buf) = off"
proof -
  have "length (drop off buf) = Suc (Suc (length rest))" by (simp add: d)
  then show l: "off + 2 \<le> length buf" by simp
  show "buf = take off buf @ a # b # rest" using d append_take_drop_id[of off buf] by simp
  show "length (take off buf) = off" using l by simp
qed

lemma getInt16_u16le:
  assumes d: "drop off buf = u16le (ToUint16 x) @ rest"
    and lo: "- 32768 \<le> js_trunc x" and hi: "js_trunc x \<le> 32767"
  shows "getInt16 buf off = Inr (js_trunc x)"
proof -
  let ?v = "ToUint16 x"
  have v: "?v < 65536" by (simp add: ToUint16_def)
  have d': "drop off buf = of_nat (?v mod 256) # of_nat (?v div 256 mod 256) # rest"
    using d by (simp add: u16le_def)
  note f = drop_two_bytes[OF d']
  have e: "take off buf @ u16le ?v @ rest = buf" using f(2) by (simp add: u16le_def)
  have "read_u16 (take off buf @ u16le ?v @ rest) (length (take off buf)) = ?v"
    by (rule read_u16_u16le[OF v])
  then have r: "read_u16 buf off = ?v" unfolding e f(3) .
  have s: "(if ?v \<ge> 32768 then int ?v - 65536 else int ?v) = js_trunc x"
  proof (cases "js_trunc x < 0")
    case True
    have "(js_trunc x + 65536) mod 65536 = js_trunc x + 65536"
      using True lo by (intro mod_pos_pos_trivial) linarith+
    moreover have "(js_trunc x + 65536) mod 65536 = js_trunc x mod 65536" by simp
    ultimately have m: "js_trunc x mod 65536 = js_trunc x + 65536" by simp
    have "ToUint16 x = nat (js_trunc x + 65536)" unfolding ToUint16_def using m by simp
    then show ?thesis using True lo by simp
  next
    case False
    then have "js_trunc x mod 65536 = js_trunc x" using hi by (intro mod_pos_pos_trivial) linarith+
    then have "ToUint16 x = nat (js_trunc x)" unfolding ToUint16_def by simp
    then show ?thesis using False hi by simp
  qed
  show ?thesis using f(1) r s by (simp add: getInt16_def Let_def)
qed


lemma js_trunc_int16_range:
  assumes "- 1 \<le> c" "c \<le> 1"
  shows "- 32768 \<le> js_trunc (if c < 0 then c * 32768 else c * 32767)"
    and "js_trunc (if c < 0 then c * 32768 else c * 32767) \<le> 32767"
proof -
  show "- 32768 \<le> js_trunc (if c < 0 then c * 32768 else c * 32767)"
  proof (cases "c < 0")
    case True
    have "real_of_int (- 32768) \<le> c * 32768" using assms(1) by simp
    then have "- 32768 \<le> \<lceil>c * 32768\<rceil>" by (simp only: le_ceiling_iff)
    then show ?thesis using True by (simp add: js_trunc_def)
  next
    case False
    then have "0 \<le> c * 32767" by simp
    then have "0 \<le> \<lfloor>c * 32767\<rfloor>" by simp
    then show ?thesis using False by (simp add: js_trunc_def)
  qed
  show "js_trunc (if c < 0 then c * 32768 else c * 32767) \<le> 32767"
  proof (cases "c < 0")
    case True
    then have "c * 32768 \<le> 0" by simp
    then have "\<lceil>c * 32768\<rceil> \<le> 0" by (simp add: ceiling_le_iff)
    then show ?thesis using True by (simp add: js_trunc_def)
  next
    case False
    have "c * 32767 \<le> 32767" using assms(2) by simp
    then have "\<lfloor>c * 32767\<rfloor> \<le> 32767" by (simp add: floor_le_iff)
    then show ?thesis using False by (simp add: js_trunc_def)
  qed
qed

lemma getInt16_encode_sample:
  assumes d: "drop off buf = encode_sample ch i @ rest" and i: "i < length ch"
  shows "getInt16 buf off = Inr (js_trunc (let clamped = max (- 1) (min 1 (ch ! i))
            in if clamped < 0 then clamped * 32768 else clamped * 32767))"
    and "drop (off + 2) buf = rest"
proof -
  let ?c = "max (- 1) (min 1 (ch ! i))"
  let ?s = "if ?c < 0 then ?c * 32768 else ?c * 32767"
  have e: "encode_sample ch i = u16le (ToUint16 ?s)"
    using i by (simp add: encode_sample_def Let_def)
  have c: "- 1 \<le> ?c" "?c \<le> 1" by simp_all
  have "getInt16 buf off = Inr (js_trunc ?s)"
    using d unfolding e by (rule getInt16_u16le) (rule js_trunc_int16_range[OF c])+
  then show "getInt16 buf off = Inr (js_trunc (let clamped = max (- 1) (min 1 (ch ! i))
            in if clamped < 0 then clamped * 32768 else clamped * 32767))"
    by (simp add: Let_def)
  have "drop (off + 2) buf = drop 2 (drop off buf)" by (simp add: add.commute)
  then show "drop (off + 2) buf = rest" unfolding d e by (simp add: u16le_def)
qed

lemma decode_frame_encoded:
  assumes "drop off buf = concat (map (\<lambda>ch. encode_sample ch i) (drop c chs)) @ rest"
    and "c \<le> length chs" and "length chans = length chs"
    and "\<forall>ch \<in> set chs. i < length ch"
  shows "\<exists>chans'. decode_frame buf (length chs) i c chans off
                     = Inr (chans', off + 2 * (length chs - c))
           \<and> length chans' = length chs
           \<and> (\<forall>j < length chs. chans' ! j =
                  (if c \<le> j then (chans ! j)[i := quantize (chs ! j ! i)] else chans ! j))
           \<and> drop (off + 2 * (length chs - c)) buf = rest"
  using assms
proof (induction "length chs - c" arbitrary: c chans off)
  case 0
  then have c: "c = length chs" by simp
  have "decode_frame buf (length chs) i c chans off = Inr (chans, off)"
    by (subst decode_frame.simps) (simp add: c)
  then show ?case using "0.prems" c by simp
next
  case (Suc k)
  then have lt: "c < length chs" by simp
  have dc: "drop c chs = chs ! c # drop (Suc c) chs" using lt by (simp add: Cons_nth_drop_Suc)
  have ic: "i < length (chs ! c)" using Suc.prems(4) lt by simp
  have d: "drop off buf = encode_sample (chs ! c) i
             @ (concat (map (\<lambda>ch. encode_sample ch i) (drop (Suc c) chs)) @ rest)"
    using Suc.prems(1) unfolding dc by simp
  note g = getInt16_encode_sample[OF d ic]
  let ?v = "real_of_int (js_trunc (let clamped = max (- 1) (min 1 (chs ! c ! i))
            in if clamped < 0 then clamped * 32768 else clamped * 32767)) / 32768"
  have q: "?v = quantize (chs ! c ! i)" by (simp add: quantize_def Let_def)
  let ?chans1 = "chans[c := (chans ! c)[i := ?v]]"
  have rng: "- 32768 \<le> js_trunc (let clamped = max (- 1) (min 1 (chs ! c ! i))
            in if clamped < 0 then clamped * 32768 else clamped * 32767)"
    "js_trunc (let clamped = max (- 1) (min 1 (chs ! c ! i))
            in if clamped < 0 then clamped * 32768 else clamped * 32767) \<le> 32767"
    unfolding Let_def by (rule js_trunc_int16_range; simp)+
  have fv: "fround ?v = ?v" by (rule fround_int16[OF rng])
  have "decode_frame buf (length chs) i c chans off
          = decode_frame buf (length chs) i (Suc c)
              (chans[c := (chans ! c)[i := fround ?v]]) (off + 2)"
    by (subst decode_frame.simps) (simp add: lt g(1))
  then have step: "decode_frame buf (length chs) i c chans off
                = decode_frame buf (length chs) i (Suc c) ?chans1 (off + 2)"
    unfolding fv .
  have k: "k = length chs - Suc c" using Suc.hyps(2) by simp
  have l1: "length ?chans1 = length chs" using Suc.prems(3) by simp
  obtain chans' where r:
    "decode_frame buf (length chs) i (Suc c) ?chans1 (off + 2)
       = Inr (chans', off + 2 + 2 * (length chs - Suc c))"
    "length chans' = length chs"
    "\<forall>j < length chs. chans' ! j =
        (if Suc c \<le> j then (?chans1 ! j)[i := quantize (chs ! j ! i)] else ?chans1 ! j)"
    "drop (off + 2 + 2 * (length chs - Suc c)) buf = rest"
    using Suc.hyps(1)[OF k g(2) _ l1 Suc.prems(4)] lt by auto
  have o: "off + 2 + 2 * (length chs - Suc c) = off + 2 * (length chs - c)" using lt by simp
  have p: "\<forall>j < length chs. chans' ! j =
              (if c \<le> j then (chans ! j)[i := quantize (chs ! j ! i)] else chans ! j)"
  proof (intro allI impI)
    fix j assume j: "j < length chs"
    show "chans' ! j = (if c \<le> j then (chans ! j)[i := quantize (chs ! j ! i)] else chans ! j)"
    proof (cases "j = c")
      case True
      have "chans' ! c = ?chans1 ! c" using r(3) lt by simp
      also have "\<dots> = (chans ! c)[i := ?v]" using lt Suc.prems(3) by simp
      finally show ?thesis using True q by simp
    next
      case False
      have "?chans1 ! j = chans ! j" using False by simp
      then show ?thesis using r(3) j False by auto
    qed
  qed
  show ?case unfolding step using r(1,2,4) p unfolding o by blast
qed


lemma decode_loop_encoded:
  assumes "drop off buf = concat (map (\<lambda>i. concat (map (\<lambda>ch. encode_sample ch i) chs)) [i0..<n])"
    and "i0 \<le> n" and "length chans = length chs"
    and "\<forall>ch \<in> set chs. length ch = n"
    and "\<forall>j < length chs. length (chans ! j) = n"
  shows "\<exists>chans'. decode_loop buf (length chs) (Num (real n)) i0 chans off = Some (Inr chans')
           \<and> length chans' = length chs
           \<and> (\<forall>j < length chs. chans' ! j = take i0 (chans ! j) @ map quantize (drop i0 (chs ! j)))"
  using assms
proof (induction "n - i0" arbitrary: i0 chans off)
  case 0
  then have i: "i0 = n" by simp
  have "decode_loop buf (length chs) (Num (real n)) i0 chans off = Some (Inr chans)"
    by (subst decode_loop.simps) (simp add: i)
  moreover have "\<forall>j < length chs. chans ! j = take i0 (chans ! j) @ map quantize (drop i0 (chs ! j))"
    using "0.prems"(4,5) i by simp
  ultimately show ?case using "0.prems"(3) by blast
next
  case (Suc k)
  then have lt: "i0 < n" by simp
  have u: "[i0..<n] = i0 # [Suc i0..<n]" using lt by (simp add: upt_conv_Cons)
  have d: "drop off buf = concat (map (\<lambda>ch. encode_sample ch i0) (drop 0 chs))
             @ concat (map (\<lambda>i. concat (map (\<lambda>ch. encode_sample ch i) chs)) [Suc i0..<n])"
    using Suc.prems(1) unfolding u by simp
  have inr: "\<forall>ch \<in> set chs. i0 < length ch" using Suc.prems(4) lt by simp
  obtain chans1 where f:
    "decode_frame buf (length chs) i0 0 chans off = Inr (chans1, off + 2 * (length chs - 0))"
    "length chans1 = length chs"
    "\<forall>j < length chs. chans1 ! j = (if 0 \<le> j then (chans ! j)[i0 := quantize (chs ! j ! i0)] else chans ! j)"
    "drop (off + 2 * (length chs - 0)) buf
       = concat (map (\<lambda>i. concat (map (\<lambda>ch. encode_sample ch i) chs)) [Suc i0..<n])"
    using decode_frame_encoded[OF d _ Suc.prems(3) inr] by auto
  have step: "decode_loop buf (length chs) (Num (real n)) i0 chans off
     = decode_loop buf (length chs) (Num (real n)) (Suc i0) chans1 (off + 2 * (length chs - 0))"
    by (subst decode_loop.simps) (simp add: lt f(1))
  have k: "k = n - Suc i0" using Suc.hyps(2) by simp
  have l1: "\<forall>j < length chs. length (chans1 ! j) = n" using f(3) Suc.prems(5) by simp
  obtain chans' where r:
    "decode_loop buf (length chs) (Num (real n)) (Suc i0) chans1 (off + 2 * (length chs - 0))
       = Some (Inr chans')"
    "length chans' = length chs"
    "\<forall>j < length chs. chans' ! j = take (Suc i0) (chans1 ! j) @ map quantize (drop (Suc i0) (chs ! j))"
    using Suc.hyps(1)[OF k f(4) _ f(2) Suc.prems(4) l1] lt by auto
  have p: "\<forall>j < length chs. chans' ! j = take i0 (chans ! j) @ map quantize (drop i0 (chs ! j))"
  proof (intro allI impI)
    fix j assume j: "j < length chs"
    have lc: "length (chans ! j) = n" using Suc.prems(5) j by simp
    have ls: "length (chs ! j) = n" using Suc.prems(4) j by simp
    have "take (Suc i0) (chans1 ! j) = take i0 (chans ! j) @ [quantize (chs ! j ! i0)]"
      using f(3) j lc lt by (simp add: take_Suc_conv_app_nth)
    moreover have "drop i0 (chs ! j) = chs ! j ! i0 # drop (Suc i0) (chs ! j)"
      using ls lt by (simp add: Cons_nth_drop_Suc)
    ultimately show "chans' ! j = take i0 (chans ! j) @ map quantize (drop i0 (chs ! j))"
      using r(3) j by simp
  qed
  show ?case unfolding step using r(1,2) p by blast
qed


lemma ascii_tags:
  "ascii_toString (ascii_bytes ''RIFF'') = ''RIFF''"
  "ascii_toString (ascii_bytes ''WAVE'') = ''WAVE''"
  by (simp_all add: ascii_toString_def ascii_bytes_def char_of_def bit_Suc_0_iff)

lemma ToUint_of_nat:
  "k < 65536 \<Longrightarrow> ToUint16 (real k) = k"
  "m < 4294967296 \<Longrightarrow> ToUint32 (real m) = m"
proof -
  have t: "\<And>j. js_trunc (real j) = int j" by (simp add: js_trunc_def)
  show "k < 65536 \<Longrightarrow> ToUint16 (real k) = k"
    unfolding ToUint16_def t by simp
  show "m < 4294967296 \<Longrightarrow> ToUint32 (real m) = m"
    unfolding ToUint32_def t by simp
qed

lemma read_u16_at:
  "length pre = k \<Longrightarrow> v < 65536 \<Longrightarrow> read_u16 (pre @ u16le v @ rest) k = v"
  using read_u16_u16le by blast

lemma read_u32_at:
  "length pre = k \<Longrightarrow> v < 4294967296 \<Longrightarrow> read_u32 (pre @ u32le v @ rest) k = v"
  using read_u32_u32le by blast

lemma map_throwing_const: "map_throwing (\<lambda>x. Inr y) xs = Inr (replicate (length xs) y)"
  by (induction xs) simp_all

lemma length_fields [simp]:
  "length (u16le v) = 2" "length (u32le v) = 4" "length (ascii_bytes s) = length s"
  by (simp_all add: u16le_def u32le_def ascii_bytes_def)


lemma decode_encode_quantize:
  assumes ne: "chs \<noteq> []" and nch: "length chs < 65536"
    and lens: "\<forall>ch \<in> set chs. length ch = n"
    and r: "r < 4294967296" and sz: "n * length chs * 2 < 4294967296"
  shows "decode_encode chs (real r) = Some (Inr (map (map quantize) chs, real r))"
proof -
  obtain ch0 rest where c: "chs = ch0 # rest" using ne by (cases chs) auto
  have n0: "length ch0 = n" using lens c by simp
  let ?nch = "length chs"
  let ?ds = "n * ?nch * 2"
  define body where
    "body = concat (map (\<lambda>i. concat (map (\<lambda>ch. encode_sample ch i) chs)) [0..<n])"
  define p1 where
    "p1 = ascii_bytes ''RIFF'' @ u32le (ToUint32 (real (HEADER_SIZE + ?ds - 8)))
          @ ascii_bytes ''WAVE'' @ ascii_bytes ''fmt '' @ u32le (ToUint32 16) @ u16le (ToUint16 1)"
  define p2 where
    "p2 = u32le (ToUint32 (real r * real ?nch * 2)) @ u16le (ToUint16 (real (?nch * 2)))"
  define buf where
    "buf = p1 @ u16le ?nch @ u32le r @ p2 @ u16le 16 @ ascii_bytes ''data'' @ u32le ?ds @ body"
  have sixteen: "ToUint16 16 = 16" by (simp add: ToUint16_def js_trunc_def)
  have hd: "length (hd chs) = n" using c n0 by simp
  have u1: "ToUint16 (real ?nch) = ?nch" by (rule ToUint_of_nat(1)[OF nch])
  have u2: "ToUint32 (real r) = r" by (rule ToUint_of_nat(2)[OF r])
  have u3: "ToUint32 (real ?ds) = ?ds" by (rule ToUint_of_nat(2)[OF sz])
  have enc: "encodeWav chs (real r) = Inr buf"
    by (simp only: encodeWav_def list.case_eq_if ne if_False Let_def hd u1 u2 u3 sixteen
        buf_def p1_def p2_def body_def append_assoc)
  have l1: "length p1 = 22" by (simp add: p1_def)
  have l2: "length p2 = 6" by (simp add: p2_def)
  have f22: "read_u16 buf 22 = ?nch"
    unfolding buf_def by (rule read_u16_at[OF l1 nch])
  have "buf = (p1 @ u16le ?nch) @ u32le r @ (p2 @ u16le 16 @ ascii_bytes ''data'' @ u32le ?ds @ body)"
    by (simp add: buf_def)
  then have f24: "read_u32 buf 24 = r"
    using read_u32_at[of "p1 @ u16le ?nch" 24 r] l1 r by simp
  have "buf = (p1 @ u16le ?nch @ u32le r @ p2) @ u16le 16 @ (ascii_bytes ''data'' @ u32le ?ds @ body)"
    by (simp add: buf_def)
  then have f34: "read_u16 buf 34 = 16"
    using read_u16_at[of "p1 @ u16le ?nch @ u32le r @ p2" 34 16] l1 l2 by simp
  have "buf = (p1 @ u16le ?nch @ u32le r @ p2 @ u16le 16 @ ascii_bytes ''data'') @ u32le ?ds @ body"
    by (simp add: buf_def)
  then have f40: "read_u32 buf 40 = ?ds"
    using read_u32_at[of "p1 @ u16le ?nch @ u32le r @ p2 @ u16le 16 @ ascii_bytes ''data''" 40 ?ds]
      l1 l2 sz by simp
  have len: "length buf = 44 + length body" by (simp add: buf_def l1 l2)
  have t1: "take 4 buf = ascii_bytes ''RIFF''" by (simp add: buf_def p1_def)
  have t2: "take 4 (drop 8 buf) = ascii_bytes ''WAVE''" by (simp add: buf_def p1_def)
  have "buf = (p1 @ u16le ?nch @ u32le r @ p2 @ u16le 16 @ ascii_bytes ''data'' @ u32le ?ds) @ body"
    by (simp add: buf_def)
  then have d44: "drop 44 buf = body"
    using l1 l2 by simp
  have npos: "0 < ?nch" using ne by simp
  have ns: "js_div (real ?ds) (real ?nch * (real 16 / 8)) = Num (real n)"
    using npos by (simp add: js_div_def)
  have alloc: "map_throwing (\<lambda>ch. new_Float32Array (Num (real n))) [0..<?nch]
                 = Inr (replicate ?nch (replicate n 0))"
  proof -
    have "new_Float32Array (Num (real n)) = Inr (replicate n 0)" by (simp add: js_trunc_def)
    then show ?thesis using map_throwing_const[of "replicate n 0" "[0..<?nch]"] by simp
  qed
  obtain chans' where lp:
    "decode_loop buf ?nch (Num (real n)) 0 (replicate ?nch (replicate n 0)) 44 = Some (Inr chans')"
    "length chans' = ?nch"
    "\<forall>j < ?nch. chans' ! j = take 0 (replicate ?nch (replicate n 0) ! j) @ map quantize (drop 0 (chs ! j))"
    using decode_loop_encoded[of 44 buf chs 0 n "replicate ?nch (replicate n 0)"] d44 lens
    unfolding body_def by auto
  have fin: "chans' = map (map quantize) chs"
    by (rule nth_equalityI) (use lp(2,3) in simp_all)
  have "decodeWav buf = Some (Inr (map (map quantize) chs, real r))"
    unfolding decodeWav_def Let_def f22 f24 f34 f40 ns alloc
    by (simp add: len HEADER_SIZE_def t1 t2 ascii_tags lp(1) fin)
  then show ?thesis by (simp add: decode_encode_def enc)
qed


lemma quantize_examples:
  "quantize (65537 / 131072) = 16383 / 32768"
  "quantize (7549747 / 8388608) = 29490 / 32768"
  by (simp_all add: quantize_def js_trunc_def)

text \<open>
  C7. The round trip keeps the rate, the number of channels and their lengths
  (lemma \<open>decode_encode_quantize\<close>), but not every sample within \<open>1/32768\<close>: a positive
  sample is scaled by 32767 and truncated, then divided by 32768. The sample
  \<open>65537/131072\<close>, which a 32-bit float holds exactly, comes back as \<open>16383/32768\<close>,
  \<open>1.25/32768\<close> away; the float nearest to \<open>0.9\<close>, a sample of the round-trip test of the
  repository, comes back as \<open>29490/32768\<close>, \<open>1.199/32768\<close> away.
\<close>

theorem wav_round_trip_error_exceeds_one_step:
  "- 1 \<le> (65537 / 131072 :: real) \<and> (65537 / 131072 :: real) \<le> 1
   \<and> decode_encode [[65537 / 131072]] 44100 = Some (Inr ([[16383 / 32768]], 44100))
   \<and> 1 / 32768 < \<bar>16383 / 32768 - 65537 / 131072 :: real\<bar>
   \<and> - 1 \<le> (7549747 / 8388608 :: real) \<and> (7549747 / 8388608 :: real) \<le> 1
   \<and> decode_encode [[7549747 / 8388608]] 44100 = Some (Inr ([[29490 / 32768]], 44100))
   \<and> 1 / 32768 < \<bar>29490 / 32768 - 7549747 / 8388608 :: real\<bar>"
proof -
  have "decode_encode [[65537 / 131072]] (real 44100)
          = Some (Inr (map (map quantize) [[65537 / 131072]], real 44100))"
    by (rule decode_encode_quantize[where n = 1]) simp_all
  then have a: "decode_encode [[65537 / 131072]] 44100 = Some (Inr ([[16383 / 32768]], 44100))"
    by (simp add: quantize_examples)
  have "decode_encode [[7549747 / 8388608]] (real 44100)
          = Some (Inr (map (map quantize) [[7549747 / 8388608]], real 44100))"
    by (rule decode_encode_quantize[where n = 1]) simp_all
  then have b: "decode_encode [[7549747 / 8388608]] 44100 = Some (Inr ([[29490 / 32768]], 44100))"
    by (simp add: quantize_examples)
  have c: "1 / 32768 < \<bar>16383 / 32768 - 65537 / 131072 :: real\<bar>" by simp
  have d: "1 / 32768 < \<bar>29490 / 32768 - 7549747 / 8388608 :: real\<bar>" by simp
  have e: "- 1 \<le> (65537 / 131072 :: real)" "(65537 / 131072 :: real) \<le> 1"
    "- 1 \<le> (7549747 / 8388608 :: real)" "(7549747 / 8388608 :: real) \<le> 1" by simp_all
  show ?thesis
    by (intro conjI) (rule e(1), rule e(2), rule a, rule c, rule e(3), rule e(4), rule b, rule d)
qed

lemma header_without_payload_fields:
  "length header_without_payload = 44"
  "ascii_toString (take 4 header_without_payload) = ''RIFF''"
  "ascii_toString (take 4 (drop 8 header_without_payload)) = ''WAVE''"
  "read_u16 header_without_payload 22 = 1"
  "read_u32 header_without_payload 24 = 44100"
  "read_u16 header_without_payload 34 = 16"
  "read_u32 header_without_payload 40 = 2"
  by (simp_all add: header_without_payload_def ascii_toString_def char_of_def bit_Suc_0_iff
      read_u32_def read_u16_def)

lemma getInt16_header_without_payload: "getInt16 header_without_payload 44 = Inl RangeError"
  by (simp add: getInt16_def header_without_payload_fields(1))

lemma decode_frame_header_without_payload:
  "decode_frame header_without_payload (Suc 0) 0 0 [[0]] 44 = Inl RangeError"
  by (subst decode_frame.simps) (simp add: getInt16_header_without_payload)

lemma decode_loop_header_without_payload:
  "decode_loop header_without_payload (Suc 0) (Num 1) 0 [[0]] 44 = Some (Inl RangeError)"
  by (subst decode_loop.simps) (simp add: decode_frame_header_without_payload)

lemma decodeWav_header_without_payload:
  "decodeWav header_without_payload = Some (Inl RangeError)"
  by (simp add: decodeWav_def header_without_payload_fields HEADER_SIZE_def js_div_def
      js_trunc_def decode_loop_header_without_payload)

text \<open>
  C10. A buffer of 44 bytes with the two tags, one channel, 16 bits per sample and a
  data size of 2 passes the checks of \<open>decodeWav\<close>, while its payload is empty. The
  decoder takes the sample count from the data size and reads 16 bits at offset 44,
  outside the buffer: the read throws a \<^verbatim>\<open>RangeError\<close>, which is what the decoder
  ends with.
\<close>

theorem decodeWav_reads_beyond_the_buffer:
  "HEADER_SIZE \<le> length header_without_payload
   \<and> ascii_toString (take 4 header_without_payload) = ''RIFF''
   \<and> ascii_toString (take 4 (drop 8 header_without_payload)) = ''WAVE''
   \<and> read_u32 header_without_payload 40 = 2
   \<and> length header_without_payload - HEADER_SIZE = 0
   \<and> getInt16 header_without_payload 44 = Inl RangeError
   \<and> decodeWav header_without_payload = Some (Inl RangeError)"
  using header_without_payload_fields getInt16_header_without_payload
    decodeWav_header_without_payload
  by (simp add: HEADER_SIZE_def)

text \<open>
  The buffer passes the check of the tags, whose two comparisons are false on it: the
  error of the decoder is not the one of that check.
\<close>

theorem decodeWav_reads_beyond_the_buffer_witness:
  "ascii_toString (take 4 header_without_payload) = ''RIFF''
   \<and> ascii_toString (take 4 (drop 8 header_without_payload)) = ''WAVE''
   \<and> decodeWav header_without_payload \<noteq> Some (Inl InvalidWav)"
  using decodeWav_reads_beyond_the_buffer by simp

end
